theory Spec2Isabelle
  imports Complex_Main "HOL-Library.AList"
begin

section \<open>Values, exceptions and the persisted file\<close>

text \<open>
  The repository holds two variants of one program: \<^verbatim>\<open>Line_detection.py\<close> (two
  parameters, called the detection variant here) and \<^verbatim>\<open>line_follower_main.py\<close>
  (six parameters, the follower variant). Both keep their parameters in a Python
  dictionary that is read from and written to \<^verbatim>\<open>config.json\<close>.

  A value that \<^verbatim>\<open>json.load\<close> can return is a \<open>json\<close>. A Python float is modelled
  by the real number it denotes; \<^verbatim>\<open>NaN\<close> and the two infinities, which Python's
  \<^verbatim>\<open>json\<close> module accepts, are values of their own. A dictionary is an association
  list: \<open>map_of\<close> looks a key up and \<open>AList.update\<close> is the assignment
  \<^verbatim>\<open>config[k] = v\<close>.
\<close>

datatype json =
    JNull
  | JBool bool
  | JInt int
  | JFloat real
  | JNaN
  | JInf bool   \<comment> \<open>\<open>JInf True\<close> is \<^verbatim>\<open>Infinity\<close>, \<open>JInf False\<close> is \<^verbatim>\<open>-Infinity\<close>\<close>
  | JStr string
  | JList "json list"
  | JObj "(string \<times> json) list"

type_synonym config = "(string \<times> json) list"

datatype py_error = KeyError | TypeError | ValueError | OSError | JSONDecodeError | CvError

text \<open>
  The file \<^verbatim>\<open>config.json\<close>: absent (\<^verbatim>\<open>os.path.isfile\<close> is false), present with a
  text that is not JSON (an empty or partly written file among them), or present with
  a JSON text, given by the value it denotes. \<open>can_read\<close> and \<open>can_write\<close> say
  whether \<^verbatim>\<open>open(..., "r")\<close> and \<^verbatim>\<open>open(..., "w")\<close> succeed, and \<open>can_finish\<close>
  whether, once the file is open for writing, the writes of \<^verbatim>\<open>json.dump\<close> and the
  closing of the file succeed (they fail on a full disk, for instance).

  The text itself is not modelled. What the model takes from the \<^verbatim>\<open>json\<close> module is
  its contract: a text written by \<^verbatim>\<open>json.dump\<close> denotes the value that was dumped.
\<close>

datatype file_content = Absent | Malformed | Parsed json

record config_file =
  content :: file_content
  can_read :: bool
  can_write :: bool
  can_finish :: bool

subsection \<open>The integer conversion limit\<close>

text \<open>
  CPython converts between an \<^verbatim>\<open>int\<close> and its decimal text only up to
  \<^verbatim>\<open>sys.get_int_max_str_digits()\<close> digits, 4300 unless configured otherwise, and raises
  \<^verbatim>\<open>ValueError\<close> beyond. \<^verbatim>\<open>json.load\<close> meets the limit when it reads an integer and
  \<^verbatim>\<open>json.dump\<close> when it writes one. A value is \<open>convertible\<close> when every integer in
  it is within the limit.
\<close>

definition int_max_str_digits :: nat where
  "int_max_str_digits = 4300"

definition within_limit :: "int \<Rightarrow> bool" where
  "within_limit i = (\<bar>i\<bar> < 10 ^ int_max_str_digits)"

fun convertible :: "json \<Rightarrow> bool" where
  "convertible (JInt i) = within_limit i"
| "convertible (JList xs) = list_all convertible xs"
| "convertible (JObj kvs) = list_all convertible (map snd kvs)"
| "convertible _ = True"

text \<open>
  \<^verbatim>\<open>with open("config.json", "w") as file: json.dump(value, file)\<close>, the body of both
  \<open>save_config\<close> functions: the exception raised, if any, and the file afterwards. When
  \<^verbatim>\<open>open\<close> fails the file is as it was. Once \<^verbatim>\<open>open\<close> has succeeded the old text is
  gone: an integer beyond the limit (\<^verbatim>\<open>ValueError\<close>) or a failing write or close
  (\<^verbatim>\<open>OSError\<close>) leaves an empty or partly written file.
\<close>

definition write_json :: "json \<Rightarrow> config_file \<Rightarrow> py_error option \<times> config_file" where
  "write_json j f =
     (if \<not> can_write f then (Some OSError, f)
      else if \<not> convertible j then (Some ValueError, f\<lparr>content := Malformed\<rparr>)
      else if \<not> can_finish f then (Some OSError, f\<lparr>content := Malformed\<rparr>)
      else (None, f\<lparr>content := Parsed j\<rparr>))"

subsection \<open>The Python operations the validation uses\<close>

text \<open>\<^verbatim>\<open>config[k]\<close>: only a dictionary can be indexed by a string.\<close>

fun subscript :: "json \<Rightarrow> string \<Rightarrow> py_error + json" where
  "subscript (JObj kvs) k = (case map_of kvs k of None \<Rightarrow> Inl KeyError | Some v \<Rightarrow> Inr v)"
| "subscript _ k = Inl TypeError"

text \<open>\<^verbatim>\<open>lo <= v\<close> and \<^verbatim>\<open>v <= hi\<close> for integer literals \<open>lo\<close> and \<open>hi\<close>: numbers
  compare by value (a \<^verbatim>\<open>bool\<close> is the integer 0 or 1), every comparison with
  \<^verbatim>\<open>NaN\<close> is false, and any other operand raises \<^verbatim>\<open>TypeError\<close>.\<close>

fun le_int_json :: "int \<Rightarrow> json \<Rightarrow> py_error + bool" where
  "le_int_json lo (JInt i) = Inr (lo \<le> i)"
| "le_int_json lo (JBool b) = Inr (lo \<le> (if b then 1 else 0))"
| "le_int_json lo (JFloat r) = Inr (real_of_int lo \<le> r)"
| "le_int_json lo JNaN = Inr False"
| "le_int_json lo (JInf pos) = Inr pos"
| "le_int_json lo _ = Inl TypeError"

fun le_json_int :: "json \<Rightarrow> int \<Rightarrow> py_error + bool" where
  "le_json_int (JInt i) hi = Inr (i \<le> hi)"
| "le_json_int (JBool b) hi = Inr ((if b then 1 else 0) \<le> hi)"
| "le_json_int (JFloat r) hi = Inr (r \<le> real_of_int hi)"
| "le_json_int JNaN hi = Inr False"
| "le_json_int (JInf pos) hi = Inr (\<not> pos)"
| "le_json_int _ hi = Inl TypeError"

text \<open>The chained comparison \<^verbatim>\<open>lo <= v <= hi\<close>: the second comparison is made only
  when the first is true.\<close>

definition between :: "int \<Rightarrow> json \<Rightarrow> int \<Rightarrow> py_error + bool" where
  "between lo v hi =
     (case le_int_json lo v of
        Inl e \<Rightarrow> Inl e
      | Inr ok \<Rightarrow> if ok then le_json_int v hi else Inr False)"

text \<open>\<^verbatim>\<open>sub in s\<close> on strings is the substring test.\<close>

fun starts_with :: "string \<Rightarrow> string \<Rightarrow> bool" where
  "starts_with [] s = True"
| "starts_with (c # cs) [] = False"
| "starts_with (c # cs) (d # ds) = (c = d \<and> starts_with cs ds)"

fun substring :: "string \<Rightarrow> string \<Rightarrow> bool" where
  "substring sub [] = (sub = [])"
| "substring sub (c # s) = (starts_with sub (c # s) \<or> substring sub s)"

text \<open>\<^verbatim>\<open>key in config\<close>: a key of a dictionary, an element of a list, a substring of
  a string; \<^verbatim>\<open>TypeError\<close> on a value that is not a container.\<close>

fun contains_key :: "json \<Rightarrow> string \<Rightarrow> py_error + bool" where
  "contains_key (JObj kvs) k = Inr (map_of kvs k \<noteq> None)"
| "contains_key (JList xs) k = Inr (List.member xs (JStr k))"
| "contains_key (JStr s) k = Inr (substring k s)"
| "contains_key _ k = Inl TypeError"

text \<open>\<^verbatim>\<open>all(key in config for key in default_config)\<close>: the keys are tried in the
  dictionary's order and the first missing one ends the test.\<close>

fun all_keys_in :: "json \<Rightarrow> string list \<Rightarrow> py_error + bool" where
  "all_keys_in c [] = Inr True"
| "all_keys_in c (k # ks) =
     (case contains_key c k of
        Inl e \<Rightarrow> Inl e
      | Inr found \<Rightarrow> if found then all_keys_in c ks else Inr False)"

section \<open>Loading and saving the configuration\<close>

subsection \<open>\<^verbatim>\<open>Line_detection.py\<close>\<close>

definition default_config_detection :: config where
  "default_config_detection = [(''min_val'', JInt 0), (''max_val'', JInt 255)]"

text \<open>The test \<^verbatim>\<open>0 <= config["min_val"] <= 255 and 0 <= config["max_val"] <= 255\<close>,
  with the exceptions its subscripts and comparisons raise.\<close>

definition valid_detection :: "json \<Rightarrow> py_error + bool" where
  "valid_detection c =
     (case subscript c ''min_val'' of
        Inl e \<Rightarrow> Inl e
      | Inr a \<Rightarrow>
          (case between 0 a 255 of
             Inl e \<Rightarrow> Inl e
           | Inr ok \<Rightarrow>
               if ok then
                 (case subscript c ''max_val'' of
                    Inl e \<Rightarrow> Inl e
                  | Inr b \<Rightarrow> between 0 b 255)
               else Inr False))"

definition invalid_message :: string where
  "invalid_message = ''Invalid config values. Reverting to defaults.''"

text \<open>The line printed by the \<^verbatim>\<open>except\<close> branch, without the text of the exception
  that follows it.\<close>

definition read_error_message :: string where
  "read_error_message = ''An error occurred while reading the config file''"

text \<open>\<open>load_config\<close> returns the configuration and the lines it printed. The file
  is opened when \<^verbatim>\<open>os.path.isfile\<close> holds; every exception raised inside the
  \<^verbatim>\<open>try\<close> block (by \<^verbatim>\<open>open\<close>, by \<^verbatim>\<open>json.load\<close>, on a text that is not JSON or
  on an integer beyond the conversion limit, or by the validation) is caught and
  reported, and the defaults are returned.\<close>

definition load_config_detection :: "config_file \<Rightarrow> json \<times> string list" where
  "load_config_detection f =
     (if content f = Absent then (JObj default_config_detection, [])
      else if \<not> can_read f then (JObj default_config_detection, [read_error_message])
      else
        (case content f of
           Absent \<Rightarrow> (JObj default_config_detection, [])
         | Malformed \<Rightarrow> (JObj default_config_detection, [read_error_message])
         | Parsed c \<Rightarrow>
             if \<not> convertible c then (JObj default_config_detection, [read_error_message])
             else
               (case valid_detection c of
                  Inl e \<Rightarrow> (JObj default_config_detection, [read_error_message])
                | Inr ok \<Rightarrow>
                    if ok then (c, [])
                    else (JObj default_config_detection, [invalid_message]))))"

text \<open>\<open>save_config(min_val, max_val)\<close> builds the dictionary and writes it. It has no
  \<^verbatim>\<open>try\<close>: whatever the writing raises, raises out of the function.\<close>

definition save_config_detection ::
  "json \<Rightarrow> json \<Rightarrow> config_file \<Rightarrow> py_error option \<times> config_file" where
  "save_config_detection min_val max_val f =
     write_json (JObj [(''min_val'', min_val), (''max_val'', max_val)]) f"

subsection \<open>\<^verbatim>\<open>line_follower_main.py\<close>\<close>

definition default_config_follower :: config where
  "default_config_follower =
     [(''min_val'', JInt 0), (''max_val'', JInt 255), (''hough_threshold'', JInt 50),
      (''min_line_length'', JInt 10), (''max_line_gap'', JInt 5), (''rho'', JFloat 1)]"

definition load_config_follower :: "config_file \<Rightarrow> json \<times> string list" where
  "load_config_follower f =
     (if content f = Absent then (JObj default_config_follower, [])
      else if \<not> can_read f then (JObj default_config_follower, [read_error_message])
      else
        (case content f of
           Absent \<Rightarrow> (JObj default_config_follower, [])
         | Malformed \<Rightarrow> (JObj default_config_follower, [read_error_message])
         | Parsed c \<Rightarrow>
             if \<not> convertible c then (JObj default_config_follower, [read_error_message])
             else
               (case all_keys_in c (map fst default_config_follower) of
                  Inl e \<Rightarrow> (JObj default_config_follower, [read_error_message])
                | Inr ok \<Rightarrow>
                    if ok then (c, [])
                    else (JObj default_config_follower, [invalid_message]))))"

text \<open>\<open>save_config(config)\<close> writes the dictionary it is given, without a
  \<^verbatim>\<open>try\<close> either.\<close>

definition save_config_follower :: "config \<Rightarrow> config_file \<Rightarrow> py_error option \<times> config_file" where
  "save_config_follower c f = write_json (JObj c) f"

section \<open>The parameters and their declared ranges\<close>

text \<open>The keys of the follower variant's dictionary, in the order of its default.\<close>

definition follower_keys :: "string list" where
  "follower_keys = [''min_val'', ''max_val'', ''hough_threshold'', ''min_line_length'', ''max_line_gap'', ''rho'']"

text \<open>
  The ranges the parameters are declared with: the two intensity bounds are integers in
  \<open>[0, 255]\<close>, the three Hough parameters are integers from 0 on, and \<open>rho\<close> is a
  positive number.
\<close>

definition declared_range :: "string \<Rightarrow> json \<Rightarrow> bool" where
  "declared_range k v =
     (case v of
        JInt i \<Rightarrow>
          if k = ''min_val'' \<or> k = ''max_val'' then 0 \<le> i \<and> i \<le> 255
          else if k = ''rho'' then 0 < i
          else 0 \<le> i
      | JFloat r \<Rightarrow> k = ''rho'' \<and> 0 < r
      | _ \<Rightarrow> False)"

definition in_declared_ranges :: "string list \<Rightarrow> config \<Rightarrow> bool" where
  "in_declared_ranges ks c =
     list_all (\<lambda>k. case map_of c k of None \<Rightarrow> False | Some v \<Rightarrow> declared_range k v) ks"

text \<open>Writing a parameter set with \<open>save_config\<close> and reading the file back with
  \<open>load_config\<close>, as the end of one run and the start of the next do.\<close>

definition save_then_load_detection :: "json \<Rightarrow> json \<Rightarrow> config_file \<Rightarrow> py_error + json" where
  "save_then_load_detection min_val max_val f =
     (case save_config_detection min_val max_val f of
        (Some err, f') \<Rightarrow> Inl err
      | (None, f') \<Rightarrow> Inr (fst (load_config_detection f')))"

definition save_then_load_follower :: "config \<Rightarrow> config_file \<Rightarrow> py_error + json" where
  "save_then_load_follower c f =
     (case save_config_follower c f of
        (Some err, f') \<Rightarrow> Inl err
      | (None, f') \<Rightarrow> Inr (fst (load_config_follower f')))"

text \<open>A well-formed file of the follower variant whose \<open>min_val\<close> is 999.\<close>

definition out_of_range_file :: config_file where
  "out_of_range_file =
     \<lparr>content = Parsed (JObj
        [(''min_val'', JInt 999), (''max_val'', JInt 255), (''hough_threshold'', JInt 50),
         (''min_line_length'', JInt 10), (''max_line_gap'', JInt 5), (''rho'', JFloat 1)]),
      can_read = True, can_write = True, can_finish = True\<rparr>"

text \<open>A parameter set of the follower variant whose \<open>hough_threshold\<close> is
  \<open>10 ^ 4300\<close>, an integer of 4301 digits.\<close>

definition huge_threshold_config :: config where
  "huge_threshold_config =
     [(''min_val'', JInt 0), (''max_val'', JInt 255),
      (''hough_threshold'', JInt (10 ^ int_max_str_digits)),
      (''min_line_length'', JInt 10), (''max_line_gap'', JInt 5), (''rho'', JFloat 1)]"

section \<open>The capture loop and the processing loop\<close>

text \<open>
  After start-up the program is two threads: the main thread runs the capture loop of
  \<open>main\<close> (the producer) and a \<open>FrameProcessor\<close> thread runs \<open>run\<close> (the consumer).
  They share the dictionary \<open>config\<close>, the lock \<open>config_lock\<close>, the queue
  \<open>frame_queue\<close> and the attribute \<open>running\<close> of the \<open>FrameProcessor\<close>.

  The model is an interleaving of atomic steps, one per statement of the source (one per
  dictionary access inside the two \<^verbatim>\<open>with config_lock\<close> blocks). A schedule, a list of
  thread names, says which thread takes the next step. A thread that waits (for the
  lock, for the queue, in \<open>join\<close>) leaves the state as it is.

  What the collaborators answer is an input of the model: the camera, the trackbars,
  the keyboard and the image pipeline of OpenCV.
\<close>

type_synonym frame = nat

datatype variant = Detection | Follower

datatype thread = Producer | Consumer

record env =
  camera_opened :: bool
    \<comment> \<open>\<^verbatim>\<open>camera.isOpened()\<close> at start-up\<close>
  setup_ok :: "config \<Rightarrow> bool"
    \<comment> \<open>the scaling of \<open>rho\<close> and the calls of \<^verbatim>\<open>namedWindow\<close> and \<^verbatim>\<open>createTrackbar\<close>
        raise nothing for this configuration\<close>
  camera_read :: "nat \<Rightarrow> frame option"
    \<comment> \<open>the \<open>n\<close>-th \<^verbatim>\<open>camera.read()\<close>: \<open>None\<close> when \<open>ret\<close> is false\<close>
  trackbar_pos :: "nat \<Rightarrow> string \<Rightarrow> int"
    \<comment> \<open>\<^verbatim>\<open>cv2.getTrackbarPos(name, 'settings')\<close> in the \<open>n\<close>-th iteration of the capture loop\<close>
  quit_key :: "nat \<Rightarrow> bool"
    \<comment> \<open>the \<open>n\<close>-th \<^verbatim>\<open>cv2.waitKey(1) & 0xFF == ord('q')\<close> of the consumer\<close>
  pipeline_raises :: "frame \<Rightarrow> config \<Rightarrow> bool"
    \<comment> \<open>the OpenCV calls of the consumer raise for this frame and these parameters\<close>

text \<open>The assignments inside the producer's \<^verbatim>\<open>with config_lock\<close> block, in the order
  of the source: the key that is assigned and the trackbar that is read.\<close>

fun updates :: "variant \<Rightarrow> (string \<times> string) list" where
  "updates Detection = [(''min_val'', ''min_val''), (''max_val'', ''max_val'')]"
| "updates Follower =
     [(''min_val'', ''min_val''), (''max_val'', ''max_val''),
      (''hough_threshold'', ''threshold''), (''min_line_length'', ''min_line_length''),
      (''max_line_gap'', ''max_line_gap''), (''rho'', ''rho'')]"

text \<open>The value assigned: the trackbar position itself, but
  \<^verbatim>\<open>max(0.01, rho_scaled / 100.0)\<close> for \<open>rho\<close>. The quotient is the exact one; for
  an integer position it is below, equal to or above 0.01 exactly when the rounded
  quotient of Python is.\<close>

definition new_value :: "string \<Rightarrow> int \<Rightarrow> json" where
  "new_value key pos =
     (if key = ''rho'' then JFloat (max (1 / 100) (real_of_int pos / 100)) else JInt pos)"

text \<open>The keys the consumer reads inside its \<^verbatim>\<open>with self.config_lock\<close> block, in the
  order of the source.\<close>

fun param_keys :: "variant \<Rightarrow> string list" where
  "param_keys Detection = [''min_val'', ''max_val'']"
| "param_keys Follower = follower_keys"

text \<open>Where each thread stands. \<open>P_update us\<close> is the producer inside its locked block
  with the assignments \<open>us\<close> still to do, \<open>C_read ks\<close> the consumer inside its locked
  block with the keys \<open>ks\<close> still to read.\<close>

datatype producer_pc =
    P_while | P_read | P_put | P_acquire | P_update "(string \<times> string) list" | P_waitKey
  | P_join | P_release | P_save | P_returned | P_raised py_error

datatype consumer_pc =
    C_while | C_empty | C_get | C_cvtColor | C_acquire | C_read "string list" | C_process
  | C_waitKey | C_stop | C_finished | C_raised py_error

record state =
  config :: config
  config_lock :: "thread option"
  frame_queue :: "frame list"
  running :: bool
  ppc :: producer_pc
  cpc :: consumer_pc
  p_frame :: frame
  c_frame :: frame
  c_params :: config
  n_reads :: nat
  n_polls :: nat
  n_keys :: nat
  stdout :: "string list"
  cfg_file :: config_file
  camera_released :: bool
  save_calls :: nat
  pushed :: "frame list"
  popped :: "frame list"
  published :: "config list"
  snapshots :: "(config \<times> nat) list"
  processed :: "(frame \<times> config) list"

text \<open>
  \<open>c_params\<close> are the consumer's local variables \<open>min_val\<close>, \<open>max_val\<close>, ... read so
  far in this iteration. The last five fields and \<open>save_calls\<close> are history: the frames
  put into and taken from the queue, the dictionary at the end of each locked block of
  the producer, the parameters the consumer held at the end of each of its locked
  blocks, each with the number of locked blocks the producer had completed by then, and
  the frames the consumer has shown with the parameters used.
\<close>

definition no_frame_message :: string where
  "no_frame_message = ''Error: Can't receive frame (stream end?). Exiting ...''"

fun terminated :: "consumer_pc \<Rightarrow> bool" where
  "terminated C_finished = True"
| "terminated (C_raised err) = True"
| "terminated _ = False"

text \<open>The call of \<open>save_config\<close> at the end of \<open>main\<close>: the detection variant passes
  \<^verbatim>\<open>config["min_val"]\<close> and \<^verbatim>\<open>config["max_val"]\<close>, the follower variant the
  dictionary. The result is the exception that leaves the call, if any, and the file
  afterwards; a subscript that raises does so before the file is opened.\<close>

fun save_config :: "variant \<Rightarrow> config \<Rightarrow> config_file \<Rightarrow> py_error option \<times> config_file" where
  "save_config Detection c f =
     (case subscript (JObj c) ''min_val'' of
        Inl err \<Rightarrow> (Some err, f)
      | Inr a \<Rightarrow>
          (case subscript (JObj c) ''max_val'' of
             Inl err \<Rightarrow> (Some err, f)
           | Inr b \<Rightarrow> save_config_detection a b f))"
| "save_config Follower c f = save_config_follower c f"

text \<open>One step of the main thread, from the \<^verbatim>\<open>while frame_processor.running\<close> loop to
  the end of \<open>main\<close>. The calls of OpenCV in the capture loop (\<^verbatim>\<open>camera.read\<close>,
  \<^verbatim>\<open>getTrackbarPos\<close>, \<^verbatim>\<open>waitKey\<close>, \<^verbatim>\<open>release\<close>) are taken to return: the step
  function follows the main thread as long as they do, and says nothing about a run
  in which one of them raises.\<close>

definition producer_step :: "variant \<Rightarrow> env \<Rightarrow> state \<Rightarrow> state" where
  "producer_step v e s =
     (case ppc s of
        P_while \<Rightarrow> s\<lparr>ppc := (if running s then P_read else P_join)\<rparr>
      | P_read \<Rightarrow>
          (case camera_read e (n_reads s) of
             None \<Rightarrow>
               s\<lparr>n_reads := Suc (n_reads s), stdout := stdout s @ [no_frame_message],
                 ppc := P_join\<rparr>
           | Some fr \<Rightarrow> s\<lparr>n_reads := Suc (n_reads s), p_frame := fr, ppc := P_put\<rparr>)
      | P_put \<Rightarrow>
          s\<lparr>frame_queue := frame_queue s @ [p_frame s], pushed := pushed s @ [p_frame s],
            ppc := P_acquire\<rparr>
      | P_acquire \<Rightarrow>
          (if config_lock s = None
           then s\<lparr>config_lock := Some Producer, ppc := P_update (updates v)\<rparr>
           else s)
      | P_update us \<Rightarrow>
          (case us of
             [] \<Rightarrow>
               s\<lparr>config_lock := None, published := published s @ [config s],
                 n_polls := Suc (n_polls s), ppc := P_waitKey\<rparr>
           | u # rest \<Rightarrow>
               s\<lparr>config :=
                   AList.update (fst u) (new_value (fst u) (trackbar_pos e (n_polls s) (snd u)))
                     (config s),
                 ppc := P_update rest\<rparr>)
      | P_waitKey \<Rightarrow> s\<lparr>ppc := P_while\<rparr>
      | P_join \<Rightarrow> (if terminated (cpc s) then s\<lparr>ppc := P_release\<rparr> else s)
      | P_release \<Rightarrow> s\<lparr>camera_released := True, ppc := P_save\<rparr>
      | P_save \<Rightarrow>
          s\<lparr>save_calls := Suc (save_calls s),
            cfg_file := snd (save_config v (config s) (cfg_file s)),
            ppc := (case fst (save_config v (config s) (cfg_file s)) of
                      None \<Rightarrow> P_returned
                    | Some err \<Rightarrow> P_raised err)\<rparr>
      | P_returned \<Rightarrow> s
      | P_raised err \<Rightarrow> s)"

text \<open>One step of \<open>FrameProcessor.run\<close>. An exception inside the locked block leaves it
  through \<^verbatim>\<open>with\<close>, which releases the lock, and ends the thread; \<open>running\<close> stays as
  it is.\<close>

definition consumer_step :: "variant \<Rightarrow> env \<Rightarrow> state \<Rightarrow> state" where
  "consumer_step v e s =
     (case cpc s of
        C_while \<Rightarrow> s\<lparr>cpc := (if running s then C_empty else C_finished)\<rparr>
      | C_empty \<Rightarrow> s\<lparr>cpc := (if frame_queue s = [] then C_while else C_get)\<rparr>
      | C_get \<Rightarrow>
          (case frame_queue s of
             [] \<Rightarrow> s
           | fr # q \<Rightarrow>
               s\<lparr>c_frame := fr, frame_queue := q, popped := popped s @ [fr],
                 cpc := C_cvtColor\<rparr>)
      | C_cvtColor \<Rightarrow> s\<lparr>cpc := C_acquire\<rparr>
      | C_acquire \<Rightarrow>
          (if config_lock s = None
           then s\<lparr>config_lock := Some Consumer, c_params := [], cpc := C_read (param_keys v)\<rparr>
           else s)
      | C_read ks \<Rightarrow>
          (case ks of
             [] \<Rightarrow>
               s\<lparr>config_lock := None,
                 snapshots := snapshots s @ [(c_params s, length (published s))],
                 cpc := C_process\<rparr>
           | k # rest \<Rightarrow>
               (case map_of (config s) k of
                  None \<Rightarrow> s\<lparr>config_lock := None, cpc := C_raised KeyError\<rparr>
                | Some x \<Rightarrow> s\<lparr>c_params := c_params s @ [(k, x)], cpc := C_read rest\<rparr>))
      | C_process \<Rightarrow>
          (if pipeline_raises e (c_frame s) (c_params s)
           then s\<lparr>cpc := C_raised CvError\<rparr>
           else s\<lparr>processed := processed s @ [(c_frame s, c_params s)], cpc := C_waitKey\<rparr>)
      | C_waitKey \<Rightarrow>
          s\<lparr>n_keys := Suc (n_keys s), cpc := (if quit_key e (n_keys s) then C_stop else C_while)\<rparr>
      | C_stop \<Rightarrow> s\<lparr>running := False, cpc := C_finished\<rparr>
      | C_finished \<Rightarrow> s
      | C_raised err \<Rightarrow> s)"

fun step :: "variant \<Rightarrow> env \<Rightarrow> thread \<Rightarrow> state \<Rightarrow> state" where
  "step v e Producer s = producer_step v e s"
| "step v e Consumer s = consumer_step v e s"

fun run :: "variant \<Rightarrow> env \<Rightarrow> thread list \<Rightarrow> state \<Rightarrow> state" where
  "run v e [] s = s"
| "run v e (t # ts) s = run v e ts (step v e t s)"

text \<open>The state when \<^verbatim>\<open>frame_processor.start()\<close> returns: the dictionary \<open>c\<close> that
  \<open>load_config\<close> gave, the file \<open>f\<close> and the lines \<open>out\<close> printed so far.\<close>

definition init_state :: "config \<Rightarrow> config_file \<Rightarrow> string list \<Rightarrow> state" where
  "init_state c f out =
     \<lparr>config = c, config_lock = None, frame_queue = [], running = True,
      ppc = P_while, cpc = C_while, p_frame = 0, c_frame = 0, c_params = [],
      n_reads = 0, n_polls = 0, n_keys = 0, stdout = out, cfg_file = f,
      camera_released = False, save_calls = 0,
      pushed = [], popped = [], published = [], snapshots = [], processed = []\<rparr>"

subsection \<open>Start-up\<close>

fun load_config :: "variant \<Rightarrow> config_file \<Rightarrow> json \<times> string list" where
  "load_config Detection f = load_config_detection f"
| "load_config Follower f = load_config_follower f"

fun camera_message :: "variant \<Rightarrow> string" where
  "camera_message Detection = ''Error: Camera could not be opened.''"
| "camera_message Follower = ''Error: Cameracould not be opened.''"

text \<open>The first subscript of \<open>config\<close> that raises while the trackbars are created, if
  any.\<close>

fun subscript_all :: "json \<Rightarrow> string list \<Rightarrow> py_error option" where
  "subscript_all c [] = None"
| "subscript_all c (k # ks) =
     (case subscript c k of Inl err \<Rightarrow> Some err | Inr x \<Rightarrow> subscript_all c ks)"

text \<open>
  How \<open>main\<close> ends, or where it stands after the steps of a schedule:
  \<open>Camera_failed\<close> when the camera did not open (the lines printed and the file),
  \<open>Setup_raised\<close> when creating the trackbars raised, and \<open>Threads\<close> with the state of
  the two threads otherwise.
\<close>

datatype result =
    Camera_failed "string list" config_file
  | Setup_raised py_error "string list" config_file
  | Threads state

definition main :: "variant \<Rightarrow> env \<Rightarrow> thread list \<Rightarrow> config_file \<Rightarrow> result" where
  "main v e sched f =
     (case load_config v f of
        (c, out) \<Rightarrow>
          if \<not> camera_opened e then Camera_failed (out @ [camera_message v]) f
          else
            (case subscript_all c (param_keys v) of
               Some err \<Rightarrow> Setup_raised err out f
             | None \<Rightarrow>
                 (case c of
                    JObj kvs \<Rightarrow>
                      if setup_ok e kvs then Threads (run v e sched (init_state kvs f out))
                      else Setup_raised CvError out f
                  | _ \<Rightarrow> Setup_raised TypeError out f)))"

fun thread_started :: "result \<Rightarrow> bool" where
  "thread_started (Threads s) = True"
| "thread_started _ = False"

fun saves :: "result \<Rightarrow> nat" where
  "saves (Threads s) = save_calls s"
| "saves _ = 0"

fun file_after :: "result \<Rightarrow> config_file" where
  "file_after (Camera_failed out f) = f"
| "file_after (Setup_raised err out f) = f"
| "file_after (Threads s) = cfg_file s"

fun printed :: "result \<Rightarrow> string list" where
  "printed (Camera_failed out f) = out"
| "printed (Setup_raised err out f) = out"
| "printed (Threads s) = stdout s"

section \<open>Invariants of the two threads\<close>

text \<open>
  The predicates below hold in every state the two threads can reach. They are the
  induction hypotheses of the properties proved further down.

  The lock: \<open>config_lock\<close> is held by the producer exactly while it is inside its
  locked block, by the consumer exactly while it is inside its own, and never by both.
\<close>

fun in_update :: "producer_pc \<Rightarrow> bool" where
  "in_update (P_update us) = True"
| "in_update _ = False"

fun in_read :: "consumer_pc \<Rightarrow> bool" where
  "in_read (C_read ks) = True"
| "in_read _ = False"

definition lock_inv :: "state \<Rightarrow> bool" where
  "lock_inv s =
     (config_lock s =
        (if in_update (ppc s) then Some Producer
         else if in_read (cpc s) then Some Consumer else None)
      \<and> \<not> (in_update (ppc s) \<and> in_read (cpc s)))"

text \<open>The queue: the frames put are the frames taken followed by the frames still
  queued, and the consumer calls \<^verbatim>\<open>get\<close> only on a queue that holds a frame.\<close>

definition queue_inv :: "state \<Rightarrow> bool" where
  "queue_inv s = (pushed s = popped s @ frame_queue s \<and> (cpc s \<noteq> C_get \<or> frame_queue s \<noteq> []))"

text \<open>The flag: \<open>running\<close> is false exactly when the consumer has run \<open>stop()\<close>
  and left its loop.\<close>

definition flag_inv :: "state \<Rightarrow> bool" where
  "flag_inv s = (running s = (cpc s \<noteq> C_finished))"

definition basic_inv :: "state \<Rightarrow> bool" where
  "basic_inv s = (lock_inv s \<and> queue_inv s \<and> flag_inv s)"

text \<open>\<open>agrees ks sn c\<close>: the parameters \<open>sn\<close> are the keys \<open>ks\<close>, in this order, each
  with the value the dictionary \<open>c\<close> holds for it.\<close>

definition agrees :: "string list \<Rightarrow> config \<Rightarrow> config \<Rightarrow> bool" where
  "agrees ks sn c = (map fst sn = ks \<and> list_all (\<lambda>p. map_of c (fst p) = Some (snd p)) sn)"

text \<open>The snapshots: outside the producer's locked block the dictionary is the one
  the last completed block left (the start-up dictionary \<open>c0\<close> before the first);
  what the consumer has read so far inside its block is what the dictionary holds; and
  every snapshot taken agrees with the dictionary of the producer's block that was the
  last one completed when it was taken (entry \<open>n\<close> of \<open>c0 # published s\<close>).\<close>

definition snapshot_inv :: "variant \<Rightarrow> config \<Rightarrow> state \<Rightarrow> bool" where
  "snapshot_inv v c0 s =
     ((in_update (ppc s) \<or> config s = last (c0 # published s))
      \<and> (case cpc s of
            C_read ks \<Rightarrow>
              map fst (c_params s) @ ks = param_keys v
              \<and> list_all (\<lambda>p. map_of (config s) (fst p) = Some (snd p)) (c_params s)
          | _ \<Rightarrow> True)
      \<and> list_all (\<lambda>p. snd p \<le> length (published s)
                       \<and> agrees (param_keys v) (fst p) ((c0 # published s) ! snd p))
           (snapshots s))"

text \<open>\<open>one_update v e i c\<close>: the dictionary \<open>c\<close> holds, for every parameter, the value
  the producer assigns in iteration \<open>i\<close> of its loop.\<close>

definition one_update :: "variant \<Rightarrow> env \<Rightarrow> nat \<Rightarrow> config \<Rightarrow> bool" where
  "one_update v e i c =
     list_all (\<lambda>u. map_of c (fst u) = Some (new_value (fst u) (trackbar_pos e i (snd u))))
       (updates v)"

text \<open>The updates: the dictionary recorded at the end of the \<open>i\<close>-th locked block
  holds the values read in iteration \<open>i\<close>, and inside a block the assignments already
  done hold the values of the current iteration.\<close>

definition update_inv :: "variant \<Rightarrow> env \<Rightarrow> state \<Rightarrow> bool" where
  "update_inv v e s =
     (length (published s) = n_polls s
      \<and> (\<forall>i < length (published s). \<forall>u \<in> set (updates v).
            map_of (published s ! i) (fst u) = Some (new_value (fst u) (trackbar_pos e i (snd u))))
      \<and> (\<forall>us. ppc s = P_update us \<longrightarrow>
              (\<exists>ds. updates v = ds @ us
                 \<and> (\<forall>u \<in> set ds.
                       map_of (config s) (fst u)
                         = Some (new_value (fst u) (trackbar_pos e (n_polls s) (snd u)))))))"




text \<open>After \<open>running\<close> has become false: \<open>past_loop\<close> says that the main thread has
  left the capture loop, \<open>steps_to_exit\<close> bounds the steps it still takes inside the
  loop, and \<open>pushes_left\<close> the frames it can still put.\<close>

fun past_loop :: "producer_pc \<Rightarrow> bool" where
  "past_loop P_join = True"
| "past_loop P_release = True"
| "past_loop P_save = True"
| "past_loop P_returned = True"
| "past_loop (P_raised err) = True"
| "past_loop _ = False"

fun steps_to_exit :: "variant \<Rightarrow> producer_pc \<Rightarrow> nat" where
  "steps_to_exit v P_read = length (updates v) + 6"
| "steps_to_exit v P_put = length (updates v) + 5"
| "steps_to_exit v P_acquire = length (updates v) + 4"
| "steps_to_exit v (P_update us) = length us + 3"
| "steps_to_exit v P_waitKey = 2"
| "steps_to_exit v P_while = 1"
| "steps_to_exit v _ = 0"

fun pushes_left :: "producer_pc \<Rightarrow> nat" where
  "pushes_left P_read = 1"
| "pushes_left P_put = 1"
| "pushes_left _ = 0"

definition stopped :: "variant \<Rightarrow> env \<Rightarrow> state \<Rightarrow> bool" where
  "stopped v e s = (\<not> running s \<and> cpc s = C_finished \<and> lock_inv s \<and> update_inv v e s)"

text \<open>Where the main thread stands in a result of \<open>main\<close>: \<open>P_returned\<close> after the
  early \<^verbatim>\<open>return\<close>, \<open>P_raised\<close> after an exception.\<close>

fun main_pc :: "result \<Rightarrow> producer_pc" where
  "main_pc (Camera_failed out f) = P_returned"
| "main_pc (Setup_raised err out f) = P_raised err"
| "main_pc (Threads s) = ppc s"

text \<open>When the first \<^verbatim>\<open>camera.read()\<close> fails: the consumer polls an empty queue and
  the main thread waits in \<open>join\<close>.\<close>

definition no_frame_inv :: "config_file \<Rightarrow> state \<Rightarrow> bool" where
  "no_frame_inv f s =
     (running s \<and> frame_queue s = [] \<and> (cpc s = C_while \<or> cpc s = C_empty)
      \<and> (ppc s = P_join \<or> (ppc s = P_while \<or> ppc s = P_read) \<and> n_reads s = 0)
      \<and> \<not> camera_released s \<and> save_calls s = 0 \<and> cfg_file s = f)"

text \<open>\<open>at_save pc\<close>: the main thread has reached the call of \<open>save_config\<close>.\<close>

fun at_save :: "producer_pc \<Rightarrow> bool" where
  "at_save P_save = True"
| "at_save P_returned = True"
| "at_save (P_raised err) = True"
| "at_save _ = False"

text \<open>For the call of \<open>save_config\<close>: the dictionary keeps its parameters; the
  file is as it was until \<open>save_config\<close> has run; the call comes after the consumer
  has ended and the camera was released; and \<open>main\<close> returns only after a write that
  succeeded.\<close>

definition save_inv :: "variant \<Rightarrow> config_file \<Rightarrow> state \<Rightarrow> bool" where
  "save_inv v f s =
     (list_all (\<lambda>k. map_of (config s) k \<noteq> None) (param_keys v)
      \<and> (ppc s = P_returned \<or> (\<exists>err. ppc s = P_raised err) \<or> cfg_file s = f)
      \<and> (at_save (ppc s) \<longrightarrow> terminated (cpc s) \<and> camera_released s)
      \<and> (ppc s = P_release \<longrightarrow> terminated (cpc s))
      \<and> (ppc s = P_returned \<longrightarrow> can_write f \<and> can_finish f))"

text \<open>The consumer's steps to the next \<^verbatim>\<open>frame_queue.get()\<close> when it is at the head
  of its loop: the loop test, the test of the queue and the call.\<close>

fun to_pop :: "consumer_pc \<Rightarrow> nat" where
  "to_pop C_while = 3"
| "to_pop C_empty = 2"
| "to_pop C_get = 1"
| "to_pop _ = 0"

section \<open>Concrete files, collaborators and schedules\<close>

text \<open>Inputs at which the properties are evaluated.\<close>

definition writable_file :: config_file where
  "writable_file = \<lparr>content = Absent, can_read = True, can_write = True, can_finish = True\<rparr>"

definition unwritable_file :: config_file where
  "unwritable_file =
     \<lparr>content = Absent, can_read = True, can_write = False, can_finish = True\<rparr>"

text \<open>A file that holds the parameters of an earlier run and can be opened for writing,
  on a device where the writes fail.\<close>

definition unfinished_file :: config_file where
  "unfinished_file =
     \<lparr>content = Parsed (JObj [(''min_val'', JInt 30), (''max_val'', JInt 200)]),
      can_read = True, can_write = True, can_finish = False\<rparr>"

text \<open>Well-formed files of the follower variant: one whose \<open>rho\<close> is 0, one whose
  \<open>rho\<close> is 1.234; and the dictionaries they and \<open>out_of_range_file\<close> parse to.\<close>

definition rho_zero_file :: config_file where
  "rho_zero_file =
     \<lparr>content = Parsed (JObj
        [(''min_val'', JInt 0), (''max_val'', JInt 255), (''hough_threshold'', JInt 50),
         (''min_line_length'', JInt 10), (''max_line_gap'', JInt 5), (''rho'', JInt 0)]),
      can_read = True, can_write = True, can_finish = True\<rparr>"

definition rho_fine_file :: config_file where
  "rho_fine_file =
     \<lparr>content = Parsed (JObj
        [(''min_val'', JInt 0), (''max_val'', JInt 255), (''hough_threshold'', JInt 50),
         (''min_line_length'', JInt 10), (''max_line_gap'', JInt 5), (''rho'', JFloat (617 / 500))]),
      can_read = True, can_write = True, can_finish = True\<rparr>"

definition rho_zero_config :: config where
  "rho_zero_config =
     [(''min_val'', JInt 0), (''max_val'', JInt 255), (''hough_threshold'', JInt 50),
      (''min_line_length'', JInt 10), (''max_line_gap'', JInt 5), (''rho'', JInt 0)]"

definition rho_fine_config :: config where
  "rho_fine_config =
     [(''min_val'', JInt 0), (''max_val'', JInt 255), (''hough_threshold'', JInt 50),
      (''min_line_length'', JInt 10), (''max_line_gap'', JInt 5), (''rho'', JFloat (617 / 500))]"

definition out_of_range_config :: config where
  "out_of_range_config =
     [(''min_val'', JInt 999), (''max_val'', JInt 255), (''hough_threshold'', JInt 50),
      (''min_line_length'', JInt 10), (''max_line_gap'', JInt 5), (''rho'', JFloat 1)]"

text \<open>A camera that delivers one frame and then fails, with every trackbar at
  \<open>pos\<close> and the quit key pressed; one that delivers two frames; a camera that opens
  and delivers no frame; a camera that does not open.\<close>

definition env_two_frames :: env where
  "env_two_frames =
     \<lparr>camera_opened = True, setup_ok = (\<lambda>c. True),
      camera_read = (\<lambda>n. if n = 0 then Some 1 else if n = 1 then Some 2 else None),
      trackbar_pos = (\<lambda>n bar. 20), quit_key = (\<lambda>n. True),
      pipeline_raises = (\<lambda>fr c. False)\<rparr>"

definition env_one_frame :: "int \<Rightarrow> env" where
  "env_one_frame pos =
     \<lparr>camera_opened = True, setup_ok = (\<lambda>c. True),
      camera_read = (\<lambda>n. if n = 0 then Some 1 else None),
      trackbar_pos = (\<lambda>n bar. pos), quit_key = (\<lambda>n. True),
      pipeline_raises = (\<lambda>fr c. False)\<rparr>"

definition env_no_frame :: env where
  "env_no_frame =
     \<lparr>camera_opened = True, setup_ok = (\<lambda>c. True), camera_read = (\<lambda>n. None),
      trackbar_pos = (\<lambda>n bar. 0), quit_key = (\<lambda>n. True),
      pipeline_raises = (\<lambda>fr c. False)\<rparr>"

definition env_no_camera :: env where
  "env_no_camera =
     \<lparr>camera_opened = False, setup_ok = (\<lambda>c. True), camera_read = (\<lambda>n. None),
      trackbar_pos = (\<lambda>n bar. 0), quit_key = (\<lambda>n. False),
      pipeline_raises = (\<lambda>fr c. False)\<rparr>"

text \<open>Schedules. \<open>capture_once\<close> is one iteration of the detection variant's
  capture loop; \<open>process_and_quit\<close> one iteration of its processing loop, ending with
  \<open>stop()\<close>; \<open>shut_down\<close> the steps of the main thread from the loop test to the end
  of \<open>save_config\<close>. \<open>early_snapshot\<close> is the follower variant's producer up to
  \<^verbatim>\<open>frame_queue.put\<close> and then its consumer up to the end of its locked block;
  \<open>first_update\<close> is the producer's locked block after that.\<close>

definition capture_once :: "thread list" where
  "capture_once = [Producer, Producer, Producer, Producer, Producer, Producer, Producer, Producer]"

definition process_and_quit :: "thread list" where
  "process_and_quit = [Consumer, Consumer, Consumer, Consumer, Consumer, Consumer, Consumer,
     Consumer, Consumer, Consumer, Consumer]"

definition shut_down :: "thread list" where
  "shut_down = [Producer, Producer, Producer, Producer]"

definition early_snapshot :: "thread list" where
  "early_snapshot = [Producer, Producer, Producer, Consumer, Consumer, Consumer, Consumer,
     Consumer, Consumer, Consumer, Consumer, Consumer, Consumer, Consumer, Consumer]"

definition first_update :: "thread list" where
  "first_update = [Producer, Producer, Producer, Producer, Producer, Producer, Producer, Producer]"

section \<open>Properties of loading and saving\<close>

lemma within_limit_small: "\<bar>i\<bar> < 10000000000 \<Longrightarrow> within_limit i"
proof -
  assume small: "\<bar>i\<bar> < 10000000000"
  have "(10::nat) \<le> int_max_str_digits"
    by (simp add: int_max_str_digits_def)
  then have "(10::int) ^ 10 \<le> 10 ^ int_max_str_digits"
    by (rule power_increasing) simp
  moreover have "(10000000000::int) = 10 ^ 10"
    by simp
  ultimately show ?thesis
    using small unfolding within_limit_def by linarith
qed

lemma beyond_limit: "\<not> within_limit (10 ^ int_max_str_digits)"
  by (simp add: within_limit_def)

lemma declared_convertible:
  "declared_range k v \<Longrightarrow> k = ''min_val'' \<or> k = ''max_val'' \<Longrightarrow> convertible v"
  by (cases v) (auto simp: declared_range_def within_limit_small)

lemma between_declared:
  "declared_range k v \<Longrightarrow> k = ''min_val'' \<or> k = ''max_val'' \<Longrightarrow> between 0 v 255 = Inr True"
  by (cases v) (auto simp: declared_range_def between_def)

lemma all_keys_in_dict:
  "all_keys_in (JObj c) ks = Inr (list_all (\<lambda>k. map_of c k \<noteq> None) ks)"
  by (induction ks) auto

lemma in_declared_ranges_keys:
  "in_declared_ranges ks c \<Longrightarrow> list_all (\<lambda>k. map_of c k \<noteq> None) ks"
  by (induction ks) (auto simp: in_declared_ranges_def split: option.splits)

text \<open>
  C2. A persisted file with a numeric field outside its declared range must make
  \<open>load_config\<close> return the complete defaults. The follower variant tests only that
  every key is present: at the well-formed file whose \<open>min_val\<close> is 999 it returns the
  file's values, 999 included, and prints nothing. The detection variant, given the same
  \<open>min_val\<close>, returns its defaults (\<open>load_config_detection_out_of_range\<close>).
\<close>

theorem load_config_follower_out_of_range:
  "load_config_follower out_of_range_file =
     (JObj [(''min_val'', JInt 999), (''max_val'', JInt 255), (''hough_threshold'', JInt 50),
            (''min_line_length'', JInt 10), (''max_line_gap'', JInt 5), (''rho'', JFloat 1)], [])"
  by (simp add: load_config_follower_def out_of_range_file_def default_config_follower_def
        within_limit_small)

lemma load_config_detection_out_of_range:
  "load_config_detection
     \<lparr>content = Parsed (JObj [(''min_val'', JInt 999), (''max_val'', JInt 255)]),
      can_read = True, can_write = True, can_finish = True\<rparr>
     = (JObj default_config_detection, [invalid_message])"
  by (simp add: load_config_detection_def valid_detection_def between_def within_limit_small)

text \<open>
  C7, as amended. For a parameter set whose fields are within their declared ranges and
  whose integers are all within the interpreter's conversion limit, and a file that can
  be opened, written to the end and read, \<open>save_config\<close> followed by \<open>load_config\<close>
  returns the same value for every field, in both variants; \<open>rho\<close> comes back exactly,
  hence within 0.01. In the detection variant the two ranges keep the integers within
  the limit. That the text \<^verbatim>\<open>json.dump\<close> writes denotes the value dumped is the
  contract of the \<^verbatim>\<open>json\<close> module; what is shown of the code is that \<open>save_config\<close>
  hands every field to \<^verbatim>\<open>json.dump\<close> and that \<open>load_config\<close> accepts what comes
  back and returns it unchanged.
\<close>

theorem save_then_load_roundtrip:
  assumes "can_write f" and "can_finish f" and "can_read f"
  shows "(declared_range ''min_val'' a \<and> declared_range ''max_val'' b \<longrightarrow>
            save_then_load_detection a b f = Inr (JObj [(''min_val'', a), (''max_val'', b)]))
       \<and> (in_declared_ranges follower_keys c \<and> convertible (JObj c) \<longrightarrow>
            save_then_load_follower c f = Inr (JObj c))"
proof (intro conjI impI)
  assume r: "declared_range ''min_val'' a \<and> declared_range ''max_val'' b"
  have "between 0 a 255 = Inr True"
    using r between_declared [of "''min_val''" a] by simp
  moreover have "between 0 b 255 = Inr True"
    using r between_declared [of "''max_val''" b] by simp
  ultimately have ok: "valid_detection (JObj [(''min_val'', a), (''max_val'', b)]) = Inr True"
    by (simp add: valid_detection_def)
  have conv: "convertible (JObj [(''min_val'', a), (''max_val'', b)])"
    using r declared_convertible [of "''min_val''" a] declared_convertible [of "''max_val''" b]
    by simp
  from assms ok conv
  show "save_then_load_detection a b f = Inr (JObj [(''min_val'', a), (''max_val'', b)])"
    by (simp add: save_then_load_detection_def save_config_detection_def write_json_def
          load_config_detection_def)
next
  assume r: "in_declared_ranges follower_keys c \<and> convertible (JObj c)"
  then have "all_keys_in (JObj c) (map fst default_config_follower) = Inr True"
    using in_declared_ranges_keys [of follower_keys c]
    by (simp add: all_keys_in_dict follower_keys_def default_config_follower_def)
  with assms r show "save_then_load_follower c f = Inr (JObj c)"
    by (simp add: save_then_load_follower_def save_config_follower_def write_json_def
          load_config_follower_def)
qed

theorem save_then_load_roundtrip_witness:
  "save_then_load_detection (JInt 10) (JInt 200) writable_file
     = Inr (JObj [(''min_val'', JInt 10), (''max_val'', JInt 200)])
   \<and> save_then_load_follower
       [(''min_val'', JInt 10), (''max_val'', JInt 200), (''hough_threshold'', JInt 40),
        (''min_line_length'', JInt 20), (''max_line_gap'', JInt 3), (''rho'', JFloat (5 / 4))]
       writable_file
     = Inr (JObj [(''min_val'', JInt 10), (''max_val'', JInt 200), (''hough_threshold'', JInt 40),
        (''min_line_length'', JInt 20), (''max_line_gap'', JInt 3), (''rho'', JFloat (5 / 4))])"
  using save_then_load_roundtrip [of writable_file "JInt 10" "JInt 200"
     "[(''min_val'', JInt 10), (''max_val'', JInt 200), (''hough_threshold'', JInt 40),
        (''min_line_length'', JInt 20), (''max_line_gap'', JInt 3), (''rho'', JFloat (5 / 4))]"]
  by (simp add: declared_range_def in_declared_ranges_def follower_keys_def writable_file_def
        within_limit_small)

text \<open>
  C7 as stated fails. Every field of \<open>huge_threshold_config\<close> is within its declared
  range, \<open>hough_threshold\<close> being a non-negative integer. \<^verbatim>\<open>json.dump\<close> opens the
  file, which empties it, and raises \<^verbatim>\<open>ValueError\<close> at the integer of 4301 digits:
  \<open>save_config\<close> raises, and the next \<open>load_config\<close> finds a text that is not JSON and
  returns the defaults, whose \<open>hough_threshold\<close> is 50.
\<close>

theorem huge_threshold_counterexample:
  "in_declared_ranges follower_keys huge_threshold_config
   \<and> save_then_load_follower huge_threshold_config writable_file = Inl ValueError
   \<and> save_config_follower huge_threshold_config writable_file
       = (Some ValueError, writable_file\<lparr>content := Malformed\<rparr>)
   \<and> load_config_follower (writable_file\<lparr>content := Malformed\<rparr>)
       = (JObj default_config_follower, [read_error_message])"
  by (simp add: in_declared_ranges_def follower_keys_def huge_threshold_config_def
        declared_range_def save_then_load_follower_def save_config_follower_def write_json_def
        writable_file_def load_config_follower_def beyond_limit within_limit_small)

lemma load_config_detection_result:
  "fst (load_config_detection f) = JObj default_config_detection
   \<or> (\<exists>c. content f = Parsed c \<and> can_read f \<and> valid_detection c = Inr True
          \<and> fst (load_config_detection f) = c)"
  by (cases "content f")
     (auto simp: load_config_detection_def split: sum.splits if_splits)

lemma valid_detection_in_range:
  assumes "valid_detection c = Inr True"
  shows "\<exists>kvs a b. c = JObj kvs \<and> map_of kvs ''min_val'' = Some a
           \<and> map_of kvs ''max_val'' = Some b
           \<and> between 0 a 255 = Inr True \<and> between 0 b 255 = Inr True"
  using assms
  by (cases c) (auto simp: valid_detection_def split: option.splits sum.splits if_splits)

section \<open>Evaluation and reachable states\<close>

lemmas eval_defs =
  main_def init_state_def producer_step_def consumer_step_def new_value_def
  load_config_detection_def load_config_follower_def default_config_detection_def
  default_config_follower_def follower_keys_def valid_detection_def between_def
  save_config_detection_def save_config_follower_def write_json_def within_limit_small
  writable_file_def unwritable_file_def unfinished_file_def
  env_one_frame_def env_two_frames_def env_no_frame_def env_no_camera_def
  rho_zero_file_def rho_fine_file_def out_of_range_file_def
  rho_zero_config_def rho_fine_config_def out_of_range_config_def
  capture_once_def process_and_quit_def shut_down_def early_snapshot_def first_update_def

lemma run_append: "run v e (xs @ ys) s = run v e ys (run v e xs s)"
  by (induction xs arbitrary: s) simp_all

subsection \<open>Lock, queue and flag\<close>

lemma lock_inv_producer: "lock_inv s \<Longrightarrow> lock_inv (producer_step v e s)"
  by (cases "ppc s") (auto simp: lock_inv_def producer_step_def split: option.splits list.splits sum.splits)

lemma lock_inv_consumer: "lock_inv s \<Longrightarrow> lock_inv (consumer_step v e s)"
  by (cases "cpc s") (auto simp: lock_inv_def consumer_step_def split: option.splits list.splits)

lemma queue_inv_producer: "queue_inv s \<Longrightarrow> queue_inv (producer_step v e s)"
  by (cases "ppc s") (auto simp: queue_inv_def producer_step_def split: option.splits list.splits sum.splits)

lemma queue_inv_consumer: "queue_inv s \<Longrightarrow> queue_inv (consumer_step v e s)"
  by (cases "cpc s") (auto simp: queue_inv_def consumer_step_def split: option.splits list.splits)

lemma flag_inv_producer: "flag_inv s \<Longrightarrow> flag_inv (producer_step v e s)"
  by (cases "ppc s") (auto simp: flag_inv_def producer_step_def split: option.splits list.splits sum.splits)

lemma flag_inv_consumer: "flag_inv s \<Longrightarrow> flag_inv (consumer_step v e s)"
  by (cases "cpc s") (auto simp: flag_inv_def consumer_step_def split: option.splits list.splits)

lemma basic_inv_step: "basic_inv s \<Longrightarrow> basic_inv (step v e t s)"
  by (cases t)
     (simp_all add: basic_inv_def lock_inv_producer lock_inv_consumer queue_inv_producer
        queue_inv_consumer flag_inv_producer flag_inv_consumer)

lemma basic_inv_run: "basic_inv s \<Longrightarrow> basic_inv (run v e sched s)"
  by (induction sched arbitrary: s) (simp_all add: basic_inv_step)

lemma basic_inv_init: "basic_inv (init_state c f out)"
  by (simp add: basic_inv_def lock_inv_def queue_inv_def flag_inv_def init_state_def)

lemma producer_keeps_running: "running (producer_step v e s) = running s"
  by (cases "ppc s") (auto simp: producer_step_def split: option.splits list.splits sum.splits)

subsection \<open>Snapshots\<close>

lemma nth_history_append:
  "n \<le> length ps \<Longrightarrow> (c0 # ps @ [c]) ! n = (c0 # ps) ! n"
  by (cases n) (simp_all add: nth_append)

lemma last_history: "last (c0 # ps) = (c0 # ps) ! length ps"
  by (metis last_conv_nth length_Cons diff_Suc_1 list.distinct(1))

lemma snapshot_inv_producer:
  assumes "snapshot_inv v c0 s" and "lock_inv s"
  shows "snapshot_inv v c0 (producer_step v e s)"
proof (cases "ppc s")
  case (P_update us)
  with assms have nr: "\<not> in_read (cpc s)"
    by (simp add: lock_inv_def)
  show ?thesis
  proof (cases us)
    case Nil
    have "list_all (\<lambda>p. snd p \<le> Suc (length (published s))
             \<and> agrees (param_keys v) (fst p) ((c0 # published s @ [config s]) ! snd p))
           (snapshots s)"
      using assms(1) by (auto simp: snapshot_inv_def list_all_iff nth_history_append)
    with assms(1) P_update Nil nr show ?thesis
      by (cases "cpc s") (simp_all add: snapshot_inv_def producer_step_def)
  next
    case (Cons u rest)
    with assms(1) P_update nr show ?thesis
      by (cases "cpc s") (simp_all add: snapshot_inv_def producer_step_def)
  qed
qed (use assms in \<open>auto simp: snapshot_inv_def producer_step_def lock_inv_def
       split: option.splits sum.splits consumer_pc.splits\<close>)

lemma snapshot_inv_consumer:
  assumes "snapshot_inv v c0 s" and "lock_inv s"
  shows "snapshot_inv v c0 (consumer_step v e s)"
proof (cases "cpc s")
  case (C_read ks)
  with assms have nu: "\<not> in_update (ppc s)"
    by (simp add: lock_inv_def)
  with assms(1) have cur: "config s = (c0 # published s) ! length (published s)"
    using last_history [of c0 "published s"] by (simp add: snapshot_inv_def)
  show ?thesis
  proof (cases ks)
    case Nil
    from assms(1) C_read Nil
    have keys: "map fst (c_params s) = param_keys v"
      and vals: "list_all (\<lambda>p. map_of (config s) (fst p) = Some (snd p)) (c_params s)"
      and old: "list_all (\<lambda>p. snd p \<le> length (published s)
                       \<and> agrees (param_keys v) (fst p) ((c0 # published s) ! snd p))
                  (snapshots s)"
      by (simp_all add: snapshot_inv_def)
    from keys vals have new: "agrees (param_keys v) (c_params s) ((c0 # published s) ! length (published s))"
      unfolding agrees_def cur [symmetric] by simp
    from assms(1) have cfg: "in_update (ppc s) \<or> config s = last (c0 # published s)"
      by (simp add: snapshot_inv_def)
    have step: "consumer_step v e s =
        s\<lparr>config_lock := None, snapshots := snapshots s @ [(c_params s, length (published s))],
          cpc := C_process\<rparr>"
      using C_read Nil by (simp add: consumer_step_def)
    show ?thesis
      unfolding step snapshot_inv_def using old new cfg by simp
  next
    case (Cons k rest)
    with assms(1) C_read nu show ?thesis
      by (auto simp: snapshot_inv_def consumer_step_def split: option.splits)
  qed
qed (use assms in \<open>auto simp: snapshot_inv_def consumer_step_def lock_inv_def
       split: option.splits list.splits\<close>)

lemma snapshot_inv_init: "snapshot_inv v c0 (init_state c0 f out)"
  by (simp add: snapshot_inv_def init_state_def)

lemma snapshot_inv_run:
  "snapshot_inv v c0 s \<Longrightarrow> basic_inv s \<Longrightarrow> snapshot_inv v c0 (run v e sched s)"
proof (induction sched arbitrary: s)
  case Nil
  then show ?case by simp
next
  case (Cons t ts)
  have "snapshot_inv v c0 (step v e t s)"
    using Cons.prems by (cases t) (simp_all add: basic_inv_def snapshot_inv_producer snapshot_inv_consumer)
  moreover have "basic_inv (step v e t s)"
    using Cons.prems by (simp add: basic_inv_step)
  ultimately show ?case
    using Cons.IH by simp
qed

subsection \<open>Updates\<close>

lemma distinct_update_keys: "distinct (map fst (updates v))"
  by (cases v) simp_all

lemma map_of_update:
  "map_of (AList.update k x c) k' = (if k' = k then Some x else map_of c k')"
  by (simp add: update_conv')

lemma update_inv_producer:
  assumes "update_inv v e s"
  shows "update_inv v e (producer_step v e s)"
proof (cases "ppc s")
  case (P_update us)
  from assms P_update obtain ds where
    ds: "updates v = ds @ us"
    and dn: "\<forall>u \<in> set ds. map_of (config s) (fst u)
                 = Some (new_value (fst u) (trackbar_pos e (n_polls s) (snd u)))"
    and len: "length (published s) = n_polls s"
    and old: "\<forall>i < length (published s). \<forall>u \<in> set (updates v).
            map_of (published s ! i) (fst u) = Some (new_value (fst u) (trackbar_pos e i (snd u)))"
    by (auto simp: update_inv_def)
  show ?thesis
  proof (cases us)
    case Nil
    have step: "producer_step v e s =
       s\<lparr>config_lock := None, published := published s @ [config s],
         n_polls := Suc (n_polls s), ppc := P_waitKey\<rparr>"
      using P_update Nil by (simp add: producer_step_def)
    have "\<forall>i < Suc (length (published s)). \<forall>u \<in> set (updates v).
            map_of ((published s @ [config s]) ! i) (fst u)
              = Some (new_value (fst u) (trackbar_pos e i (snd u)))"
    proof (intro allI impI ballI)
      fix i u assume i: "i < Suc (length (published s))" and u: "u \<in> set (updates v)"
      show "map_of ((published s @ [config s]) ! i) (fst u)
              = Some (new_value (fst u) (trackbar_pos e i (snd u)))"
      proof (cases "i < length (published s)")
        case True
        with old u show ?thesis by (simp add: nth_append)
      next
        case False
        with i have "i = length (published s)" by simp
        with dn ds Nil u len show ?thesis by (simp add: nth_append)
      qed
    qed
    with len show ?thesis
      unfolding step update_inv_def by simp
  next
    case (Cons u rest)
    have step: "producer_step v e s =
       s\<lparr>config := AList.update (fst u) (new_value (fst u) (trackbar_pos e (n_polls s) (snd u)))
                     (config s),
         ppc := P_update rest\<rparr>"
      using P_update Cons by (simp add: producer_step_def)
    have dist: "distinct (map fst (ds @ u # rest))"
      using distinct_update_keys [of v] ds Cons by simp
    have "\<forall>w \<in> set (ds @ [u]).
            map_of (AList.update (fst u) (new_value (fst u) (trackbar_pos e (n_polls s) (snd u)))
                     (config s)) (fst w)
              = Some (new_value (fst w) (trackbar_pos e (n_polls s) (snd w)))"
    proof
      fix w assume "w \<in> set (ds @ [u])"
      then consider "w = u" | "w \<in> set ds" "fst w \<noteq> fst u"
        using dist by (auto simp: image_iff) 
      then show "map_of (AList.update (fst u) (new_value (fst u) (trackbar_pos e (n_polls s) (snd u)))
                     (config s)) (fst w)
              = Some (new_value (fst w) (trackbar_pos e (n_polls s) (snd w)))"
        using dn by cases (simp_all add: map_of_update)
    qed
    moreover have "updates v = (ds @ [u]) @ rest"
      using ds Cons by simp
    ultimately have "\<exists>ds'. updates v = ds' @ rest
        \<and> (\<forall>w \<in> set ds'.
            map_of (AList.update (fst u) (new_value (fst u) (trackbar_pos e (n_polls s) (snd u)))
                     (config s)) (fst w)
              = Some (new_value (fst w) (trackbar_pos e (n_polls s) (snd w))))"
      by blast
    with len old show ?thesis
      unfolding step update_inv_def by simp
  qed
next
  case P_acquire
  have "\<exists>ds. updates v = ds @ updates v
      \<and> (\<forall>u \<in> set ds. map_of (config s) (fst u)
             = Some (new_value (fst u) (trackbar_pos e (n_polls s) (snd u))))"
    by (rule exI [of _ "[]"]) simp
  with assms P_acquire show ?thesis
    by (simp add: update_inv_def producer_step_def)
qed (use assms in \<open>auto simp: update_inv_def producer_step_def split: option.splits sum.splits\<close>)

lemma update_inv_consumer:
  "update_inv v e s \<Longrightarrow> update_inv v e (consumer_step v e' s)"
  by (cases "cpc s") (auto simp: update_inv_def consumer_step_def split: option.splits list.splits)

lemma update_inv_init: "update_inv v e (init_state c f out)"
  by (simp add: update_inv_def init_state_def)

lemma update_inv_run: "update_inv v e s \<Longrightarrow> update_inv v e (run v e sched s)"
proof (induction sched arbitrary: s)
  case Nil
  then show ?case by simp
next
  case (Cons t ts)
  then show ?case
    by (cases t) (simp_all add: update_inv_producer update_inv_consumer)
qed

lemma published_one_update:
  assumes "update_inv v e s" and "i < length (published s)"
  shows "one_update v e i (published s ! i)"
  using assms by (simp add: update_inv_def one_update_def list_all_iff)

subsection \<open>Ranges\<close>








subsection \<open>After the flag is cleared\<close>

lemma consumer_finished: "cpc s = C_finished \<Longrightarrow> consumer_step v e s = s"
  by (simp add: consumer_step_def)

lemma steps_to_exit_0: "steps_to_exit v pc = 0 \<Longrightarrow> past_loop pc"
  by (cases pc) simp_all

lemma steps_to_exit_bound:
  "stopped v e s \<Longrightarrow> steps_to_exit v (ppc s) \<le> length (updates v) + 6"
  by (cases "ppc s") (auto simp: stopped_def update_inv_def)

lemma stopped_producer:
  assumes "stopped v e s"
  shows "stopped v e (producer_step v e s)
     \<and> popped (producer_step v e s) = popped s
     \<and> length (pushed (producer_step v e s)) + pushes_left (ppc (producer_step v e s))
          \<le> length (pushed s) + pushes_left (ppc s)
     \<and> steps_to_exit v (ppc (producer_step v e s)) \<le> steps_to_exit v (ppc s) - 1
     \<and> (past_loop (ppc s) \<longrightarrow>
           past_loop (ppc (producer_step v e s))
           \<and> pushed (producer_step v e s) = pushed s
           \<and> frame_queue (producer_step v e s) = frame_queue s)"
proof -
  have st: "stopped v e (producer_step v e s)"
    using assms by (simp add: stopped_def lock_inv_producer update_inv_producer)
       (cases "ppc s"; simp add: producer_step_def split: option.splits list.splits sum.splits)
  have len: "\<And>us. ppc s = P_update us \<Longrightarrow> length us \<le> length (updates v)"
    using assms by (auto simp: stopped_def update_inv_def)
  have free: "ppc s = P_acquire \<Longrightarrow> config_lock s = None"
    using assms by (simp add: stopped_def lock_inv_def)
  have rest: "popped (producer_step v e s) = popped s
     \<and> length (pushed (producer_step v e s)) + pushes_left (ppc (producer_step v e s))
          \<le> length (pushed s) + pushes_left (ppc s)
     \<and> steps_to_exit v (ppc (producer_step v e s)) \<le> steps_to_exit v (ppc s) - 1
     \<and> (past_loop (ppc s) \<longrightarrow>
           past_loop (ppc (producer_step v e s))
           \<and> pushed (producer_step v e s) = pushed s
           \<and> frame_queue (producer_step v e s) = frame_queue s)"
    using assms free len
    by (cases "ppc s")
       (auto simp: producer_step_def stopped_def split: option.splits list.splits sum.splits)
  from st rest show ?thesis by simp
qed

lemma stopped_run:
  assumes "stopped v e s"
  shows "stopped v e (run v e sched s)
     \<and> popped (run v e sched s) = popped s
     \<and> length (pushed (run v e sched s)) + pushes_left (ppc (run v e sched s))
          \<le> length (pushed s) + pushes_left (ppc s)
     \<and> steps_to_exit v (ppc (run v e sched s))
          \<le> steps_to_exit v (ppc s) - count_list sched Producer
     \<and> (past_loop (ppc s) \<longrightarrow>
           past_loop (ppc (run v e sched s))
           \<and> pushed (run v e sched s) = pushed s
           \<and> frame_queue (run v e sched s) = frame_queue s)"
  using assms
proof (induction sched arbitrary: s)
  case Nil
  then show ?case by simp
next
  case (Cons t ts)
  show ?case
  proof (cases t)
    case Producer
    note one = stopped_producer [OF Cons.prems]
    note more = Cons.IH [of "producer_step v e s"]
    from one more Producer show ?thesis
      by (simp; linarith)
  next
    case Consumer
    from Cons.prems have "consumer_step v e s = s"
      by (simp add: stopped_def consumer_finished)
    with Cons.IH [OF Cons.prems] Consumer show ?thesis
      by simp
  qed
qed

lemma reachable_invs:
  assumes "s = run v e sched (init_state c0 f out)"
  shows "basic_inv s" and "update_inv v e s" and "snapshot_inv v c0 s"
  using assms
  by (simp_all add: basic_inv_run basic_inv_init update_inv_run update_inv_init
        snapshot_inv_run snapshot_inv_init)

lemma not_running_stopped:
  assumes "s = run v e sched (init_state c0 f out)" and "\<not> running s"
  shows "stopped v e s"
  using reachable_invs [OF assms(1)] assms(2)
  by (simp add: stopped_def basic_inv_def flag_inv_def)

lemma published_rho:
  assumes "s = run Follower e sched (init_state c0 f out)" and "i < length (published s)"
  shows "map_of (published s ! i) ''rho''
           = Some (JFloat (max (1 / 100) (real_of_int (trackbar_pos e i ''rho'') / 100)))"
  using published_one_update [OF reachable_invs(2) [OF assms(1)] assms(2)]
  by (simp add: one_update_def new_value_def)

subsection \<open>Start-up and the final save\<close>

lemma subscript_all_present:
  "subscript_all (JObj c) ks = None \<Longrightarrow> list_all (\<lambda>k. map_of c k \<noteq> None) ks"
  by (induction ks) (auto split: option.splits sum.splits)

lemma main_threads:
  assumes "thread_started (main v e sched f)"
  shows "\<exists>c0. fst (load_config v f) = JObj c0
           \<and> main v e sched f = Threads (run v e sched (init_state c0 f (snd (load_config v f))))
           \<and> list_all (\<lambda>k. map_of c0 k \<noteq> None) (param_keys v)"
proof -
  obtain c out where l: "load_config v f = (c, out)"
    by (cases "load_config v f")
  show ?thesis
  proof (cases c)
    case (JObj kvs)
    with assms l have "subscript_all (JObj kvs) (param_keys v) = None"
      and "main v e sched f = Threads (run v e sched (init_state kvs f out))"
      by (auto simp: main_def split: if_splits option.splits)
    with JObj l subscript_all_present [of kvs "param_keys v"] show ?thesis
      by simp
  qed (use assms l in \<open>auto simp: main_def split: if_splits option.splits\<close>)
qed

lemma main_schedule:
  assumes "main v e sched f = Threads s"
  shows "\<exists>c0 out. s = run v e sched (init_state c0 f out)
           \<and> list_all (\<lambda>k. map_of c0 k \<noteq> None) (param_keys v)
           \<and> (\<forall>sched'. main v e sched' f = Threads (run v e sched' (init_state c0 f out)))"
proof -
  from assms have "thread_started (main v e sched f)"
    by simp
  from main_threads [OF this] obtain c0 where
    l0: "fst (load_config v f) = JObj c0"
    and m: "main v e sched f = Threads (run v e sched (init_state c0 f (snd (load_config v f))))"
    and k: "list_all (\<lambda>k. map_of c0 k \<noteq> None) (param_keys v)"
    by blast
  have "main v e sched' f = Threads (run v e sched' (init_state c0 f (snd (load_config v f))))"
    for sched'
    using l0 m by (auto simp: main_def split: prod.splits if_splits option.splits json.splits)
  with assms m k show ?thesis
    by auto
qed

lemma save_config_ok: "save_config v c f = (None, f') \<Longrightarrow> can_write f \<and> can_finish f"
  by (cases v)
     (auto simp: save_config_detection_def save_config_follower_def write_json_def
           split: sum.splits if_splits)

lemma save_config_unwritable:
  assumes "\<not> can_write f" and "list_all (\<lambda>k. map_of c k \<noteq> None) (param_keys v)"
  shows "save_config v c f = (Some OSError, f)"
  using assms
  by (cases v)
     (auto simp: save_config_detection_def save_config_follower_def write_json_def)

lemma save_config_unfinished:
  assumes "can_write f" and "\<not> can_finish f"
    and "list_all (\<lambda>k. map_of c k \<noteq> None) (param_keys v)"
  shows "save_config v c f = (Some OSError, f\<lparr>content := Malformed\<rparr>)
       \<or> save_config v c f = (Some ValueError, f\<lparr>content := Malformed\<rparr>)"
  using assms
  by (cases v)
     (auto simp: save_config_detection_def save_config_follower_def write_json_def
           split: if_splits)

lemma save_inv_producer:
  assumes "save_inv v f s"
  shows "save_inv v f (producer_step v e s)"
proof (cases "ppc s")
  case (P_update us)
  with assms show ?thesis
    by (cases us)
       (auto simp: save_inv_def producer_step_def list_all_iff map_of_update)
next
  case P_save
  obtain r f' where r: "save_config v (config s) (cfg_file s) = (r, f')"
    by (cases "save_config v (config s) (cfg_file s)")
  from assms P_save have fl: "cfg_file s = f"
    by (auto simp: save_inv_def)
  show ?thesis
  proof (cases r)
    case None
    with r fl save_config_ok [of v "config s" f f'] have "can_write f \<and> can_finish f"
      by simp
    with assms P_save r None show ?thesis
      by (auto simp: save_inv_def producer_step_def)
  next
    case (Some err)
    with assms P_save r show ?thesis
      by (auto simp: save_inv_def producer_step_def)
  qed
qed (use assms in \<open>auto simp: save_inv_def producer_step_def split: option.splits\<close>)

lemma save_inv_consumer: "save_inv v f s \<Longrightarrow> save_inv v f (consumer_step v e s)"
  by (cases "cpc s") (auto simp: save_inv_def consumer_step_def split: option.splits list.splits)

lemma save_inv_run: "save_inv v f s \<Longrightarrow> save_inv v f (run v e sched s)"
proof (induction sched arbitrary: s)
  case Nil
  then show ?case by simp
next
  case (Cons t ts)
  then show ?case
    by (cases t) (simp_all add: save_inv_producer save_inv_consumer)
qed

lemma save_inv_init:
  "list_all (\<lambda>k. map_of c0 k \<noteq> None) (param_keys v) \<Longrightarrow> save_inv v f (init_state c0 f out)"
  by (simp add: save_inv_def init_state_def)

lemma consumer_keeps_ppc: "ppc (consumer_step v e s) = ppc s"
  by (cases "cpc s") (auto simp: consumer_step_def split: option.splits list.splits)

lemma raised_run: "ppc s = P_raised err \<Longrightarrow> ppc (run v e sched s) = P_raised err"
proof (induction sched arbitrary: s)
  case Nil
  then show ?case by simp
next
  case (Cons t ts)
  then show ?case
    by (cases t) (simp_all add: producer_step_def consumer_keeps_ppc)
qed

subsection \<open>The queue and the consumer\<close>

lemma producer_keeps_consumer:
  "cpc (producer_step v e s) = cpc s \<and> popped (producer_step v e s) = popped s
   \<and> running (producer_step v e s) = running s
   \<and> (frame_queue s \<noteq> [] \<longrightarrow>
        frame_queue (producer_step v e s) \<noteq> []
        \<and> hd (frame_queue (producer_step v e s)) = hd (frame_queue s))"
  by (cases "ppc s")
     (auto simp: producer_step_def split: option.splits list.splits prod.splits)

lemma producer_only_popped:
  "count_list sched Consumer = 0 \<Longrightarrow> popped (run v e sched s) = popped s"
proof (induction sched arbitrary: s)
  case Nil
  then show ?case by simp
next
  case (Cons t ts)
  then show ?case
    by (cases t) (simp_all add: producer_keeps_consumer)
qed

lemma terminated_run:
  "terminated (cpc s) \<Longrightarrow> popped (run v e sched s) = popped s \<and> cpc (run v e sched s) = cpc s"
proof (induction sched arbitrary: s)
  case Nil
  then show ?case by simp
next
  case (Cons t ts)
  show ?case
  proof (cases t)
    case Producer
    with Cons.IH [of "producer_step v e s"] Cons.prems show ?thesis
      by (simp add: producer_keeps_consumer)
  next
    case Consumer
    from Cons.prems have "consumer_step v e s = s"
      by (cases "cpc s") (simp_all add: consumer_step_def)
    with Cons.IH [OF Cons.prems] Consumer show ?thesis
      by simp
  qed
qed

lemma next_pop:
  assumes "count_list sched Consumer = to_pop (cpc s)" and "0 < to_pop (cpc s)"
    and "frame_queue s \<noteq> []" and "cpc s = C_while \<longrightarrow> running s"
  shows "popped (run v e sched s) = popped s @ [hd (frame_queue s)]"
  using assms
proof (induction sched arbitrary: s)
  case Nil
  then show ?case by simp
next
  case (Cons t ts)
  show ?case
  proof (cases t)
    case Producer
    with Cons.IH [of "producer_step v e s"] Cons.prems show ?thesis
      by (simp add: producer_keeps_consumer)
  next
    case Consumer
    consider "cpc s = C_while" | "cpc s = C_empty" | "cpc s = C_get"
      using Cons.prems(2) by (cases "cpc s") simp_all
    then show ?thesis
    proof cases
      case 1
      with Cons.IH [of "consumer_step v e s"] Cons.prems Consumer show ?thesis
        by (simp add: consumer_step_def)
    next
      case 2
      with Cons.IH [of "consumer_step v e s"] Cons.prems Consumer show ?thesis
        by (simp add: consumer_step_def)
    next
      case 3
      with Cons.prems Consumer have "count_list ts Consumer = 0"
        by simp
      from producer_only_popped [OF this, of v e "consumer_step v e s"] 3 Cons.prems Consumer
      show ?thesis
        by (cases "frame_queue s") (simp_all add: consumer_step_def)
    qed
  qed
qed

subsection \<open>A camera that delivers no frame\<close>

lemma no_frame_inv_step:
  assumes "camera_read e 0 = None" and "no_frame_inv f s"
  shows "no_frame_inv f (step v e t s)"
proof (cases t)
  case Producer
  with assms show ?thesis
    by (cases "ppc s") (auto simp: no_frame_inv_def producer_step_def)
next
  case Consumer
  with assms show ?thesis
    by (cases "cpc s") (auto simp: no_frame_inv_def consumer_step_def)
qed

lemma no_frame_inv_run:
  assumes "camera_read e 0 = None"
  shows "no_frame_inv f s \<Longrightarrow> no_frame_inv f (run v e sched s)"
  by (induction sched arbitrary: s) (simp_all add: no_frame_inv_step [OF assms])

section \<open>Properties of the two threads\<close>

text \<open>
  C1. When \<^verbatim>\<open>camera.read()\<close> fails, the producer must log, set the running flag to
  false and leave its loop, so that the consumer stops and the shutdown (join, camera
  release, save) completes. The code prints the message and leaves the loop with
  \<^verbatim>\<open>break\<close>, but no step of the main thread writes \<open>running\<close>
  (\<open>producer_keeps_running\<close>). At a camera whose first read fails, whatever the
  schedule: \<open>running\<close> stays true, the consumer stays in its loop, the main thread never
  gets past \<open>join\<close>, the camera is never released and \<open>save_config\<close> is never called.
\<close>

theorem capture_failure_never_shuts_down:
  assumes "camera_read e 0 = None" and "s = run v e sched (init_state c f out)"
  shows "running s \<and> (cpc s = C_while \<or> cpc s = C_empty)
     \<and> (ppc s = P_while \<or> ppc s = P_read \<or> ppc s = P_join)
     \<and> \<not> camera_released s \<and> save_calls s = 0 \<and> cfg_file s = f"
proof -
  have "no_frame_inv f (init_state c f out)"
    by (simp add: no_frame_inv_def init_state_def)
  then have "no_frame_inv f s"
    unfolding assms(2) by (rule no_frame_inv_run [OF assms(1)])
  then show ?thesis
    by (auto simp: no_frame_inv_def)
qed

theorem capture_failure_never_shuts_down_witness:
  "camera_read env_no_frame 0 = None
   \<and> running (run Detection env_no_frame
        [Producer, Consumer, Producer, Consumer, Consumer, Producer, Producer]
        (init_state default_config_detection writable_file []))
   \<and> save_calls (run Detection env_no_frame
        [Producer, Consumer, Producer, Consumer, Consumer, Producer, Producer]
        (init_state default_config_detection writable_file [])) = 0"
proof -
  have h: "camera_read env_no_frame 0 = None"
    by (simp add: env_no_frame_def)
  from capture_failure_never_shuts_down [OF h refl, where v = Detection
      and sched = "[Producer, Consumer, Producer, Consumer, Consumer, Producer, Producer]"
      and c = default_config_detection and f = writable_file and out = "[]"] h
  show ?thesis by simp
qed




text \<open>
  C4, as amended. A failure to write the file is not handled: \<open>save_config\<close> has no
  \<^verbatim>\<open>try\<close> and neither has \<open>main\<close>. When \<open>main\<close> reaches the call of \<open>save_config\<close>
  the consumer has ended and the camera was released; if the file then cannot be opened
  for writing the call ends \<open>main\<close> with \<^verbatim>\<open>OSError\<close>, and if it can be opened and the
  writing fails the call ends \<open>main\<close> with an exception as well. Either way the
  exception is what \<open>main\<close> ended with, whatever is scheduled afterwards.
\<close>

theorem write_error_ends_main:
  assumes "main v e sched f = Threads s" and "ppc s = P_save"
  shows "terminated (cpc s) \<and> camera_released s
     \<and> (\<not> can_write f \<longrightarrow>
          (\<forall>rest. main_pc (main v e (sched @ Producer # rest) f) = P_raised OSError))
     \<and> (can_write f \<and> \<not> can_finish f \<longrightarrow>
          (\<exists>err. (err = OSError \<or> err = ValueError)
             \<and> (\<forall>rest. main_pc (main v e (sched @ Producer # rest) f) = P_raised err)))"
proof -
  from main_schedule [OF assms(1)] obtain c0 out where
    s: "s = run v e sched (init_state c0 f out)"
    and k: "list_all (\<lambda>k. map_of c0 k \<noteq> None) (param_keys v)"
    and m: "\<And>sched'. main v e sched' f = Threads (run v e sched' (init_state c0 f out))"
    by blast
  have inv: "save_inv v f s"
    unfolding s using k by (simp add: save_inv_run save_inv_init)
  with assms(2) have at: "terminated (cpc s) \<and> camera_released s"
    and fl: "cfg_file s = f"
    and keys: "list_all (\<lambda>k. map_of (config s) k \<noteq> None) (param_keys v)"
    by (auto simp: save_inv_def)
  have later: "main_pc (main v e (sched @ Producer # rest) f)
      = ppc (run v e rest (producer_step v e s))" for rest
    by (simp add: m run_append s)
  have unwritable: "main_pc (main v e (sched @ Producer # rest) f) = P_raised OSError"
    if "\<not> can_write f" for rest
  proof -
    from that fl keys have "save_config v (config s) (cfg_file s) = (Some OSError, f)"
      by (simp add: save_config_unwritable)
    with assms(2) have "ppc (producer_step v e s) = P_raised OSError"
      by (simp add: producer_step_def)
    then show ?thesis
      by (simp add: later raised_run)
  qed
  have unfinished: "\<exists>err. (err = OSError \<or> err = ValueError)
      \<and> (\<forall>rest. main_pc (main v e (sched @ Producer # rest) f) = P_raised err)"
    if "can_write f \<and> \<not> can_finish f"
  proof -
    from that fl keys save_config_unfinished [of f "config s" v]
    have "\<exists>err f'. (err = OSError \<or> err = ValueError)
        \<and> save_config v (config s) (cfg_file s) = (Some err, f')"
      by auto
    then obtain err f' where err: "err = OSError \<or> err = ValueError"
      and "save_config v (config s) (cfg_file s) = (Some err, f')"
      by blast
    with assms(2) have "ppc (producer_step v e s) = P_raised err"
      by (simp add: producer_step_def)
    then have "\<forall>rest. main_pc (main v e (sched @ Producer # rest) f) = P_raised err"
      by (simp add: later raised_run)
    with err show ?thesis
      by blast
  qed
  from at unwritable unfinished show ?thesis
    by blast
qed

theorem write_error_ends_main_witness:
  "camera_released (run Detection (env_one_frame 20)
       (capture_once @ process_and_quit @ [Producer, Producer, Producer])
       (init_state default_config_detection unwritable_file []))
   \<and> main_pc (main Detection (env_one_frame 20)
       ((capture_once @ process_and_quit @ [Producer, Producer, Producer])
          @ Producer # [Consumer, Producer]) unwritable_file) = P_raised OSError
   \<and> (\<exists>err. main_pc (main Detection (env_one_frame 20)
       ((capture_once @ process_and_quit @ [Producer, Producer, Producer])
          @ Producer # [Consumer, Producer]) unfinished_file) = P_raised err)"
proof -
  have h: "main Detection (env_one_frame 20)
       (capture_once @ process_and_quit @ [Producer, Producer, Producer]) unwritable_file
     = Threads (run Detection (env_one_frame 20)
         (capture_once @ process_and_quit @ [Producer, Producer, Producer])
         (init_state default_config_detection unwritable_file []))"
    by (simp add: main_def load_config_detection_def unwritable_file_def env_one_frame_def
          default_config_detection_def)
  have p: "ppc (run Detection (env_one_frame 20)
         (capture_once @ process_and_quit @ [Producer, Producer, Producer])
         (init_state default_config_detection unwritable_file [])) = P_save"
    by (simp add: eval_defs)
  have w: "\<not> can_write unwritable_file"
    by (simp add: unwritable_file_def)
  have h': "main Detection (env_one_frame 20)
       (capture_once @ process_and_quit @ [Producer, Producer, Producer]) unfinished_file
     = Threads (run Detection (env_one_frame 20)
         (capture_once @ process_and_quit @ [Producer, Producer, Producer])
         (init_state [(''min_val'', JInt 30), (''max_val'', JInt 200)] unfinished_file []))"
    by (simp add: main_def load_config_detection_def unfinished_file_def env_one_frame_def
          valid_detection_def between_def within_limit_small)
  have p': "ppc (run Detection (env_one_frame 20)
         (capture_once @ process_and_quit @ [Producer, Producer, Producer])
         (init_state [(''min_val'', JInt 30), (''max_val'', JInt 200)] unfinished_file []))
     = P_save"
    by (simp add: eval_defs)
  have w': "can_write unfinished_file \<and> \<not> can_finish unfinished_file"
    by (simp add: unfinished_file_def)
  from write_error_ends_main [OF h p] w
  have "camera_released (run Detection (env_one_frame 20)
       (capture_once @ process_and_quit @ [Producer, Producer, Producer])
       (init_state default_config_detection unwritable_file []))
   \<and> main_pc (main Detection (env_one_frame 20)
       ((capture_once @ process_and_quit @ [Producer, Producer, Producer])
          @ Producer # [Consumer, Producer]) unwritable_file) = P_raised OSError"
    by blast
  moreover from write_error_ends_main [OF h' p'] w'
  have "\<exists>err. main_pc (main Detection (env_one_frame 20)
       ((capture_once @ process_and_quit @ [Producer, Producer, Producer])
          @ Producer # [Consumer, Producer]) unfinished_file) = P_raised err"
    by blast
  ultimately show ?thesis
    by blast
qed

text \<open>
  C4 as stated fails: with a file that cannot be written, a run in which the operator
  quits ends with the \<^verbatim>\<open>OSError\<close> of \<open>save_config\<close> unhandled.
\<close>

theorem write_error_escapes_counterexample:
  "main_pc (main Detection (env_one_frame 20) (capture_once @ process_and_quit @ shut_down)
      unwritable_file) = P_raised OSError"
  by (simp add: eval_defs)

text \<open>
  C5, as amended. Every snapshot the consumer takes agrees, field for field, with one
  dictionary: the one left by the producer's locked block that was the last completed
  when the snapshot was taken, or the start-up dictionary when none was completed yet
  (entry 0). The dictionary left by the \<open>i\<close>-th block holds the values of iteration
  \<open>i\<close> for all parameters, so a snapshot never mixes two updates.
\<close>

theorem snapshot_is_one_update:
  assumes "s = run v e sched (init_state c0 f out)"
  shows "list_all
           (\<lambda>p. snd p \<le> length (published s)
              \<and> agrees (param_keys v) (fst p) ((c0 # published s) ! snd p))
           (snapshots s)
     \<and> (\<forall>i < length (published s). one_update v e i (published s ! i))"
  using reachable_invs(2,3) [OF assms]
  by (simp add: snapshot_inv_def published_one_update)

theorem snapshot_is_one_update_witness:
  "list_all
     (\<lambda>p. snd p \<le> length (published (run Detection (env_one_frame 20)
                (capture_once @ [Consumer, Consumer, Consumer, Consumer, Consumer, Consumer,
                   Consumer, Consumer])
                (init_state default_config_detection writable_file [])))
        \<and> agrees (param_keys Detection) (fst p)
            ((default_config_detection # published (run Detection (env_one_frame 20)
                (capture_once @ [Consumer, Consumer, Consumer, Consumer, Consumer, Consumer,
                   Consumer, Consumer])
                (init_state default_config_detection writable_file []))) ! snd p))
     (snapshots (run Detection (env_one_frame 20)
        (capture_once @ [Consumer, Consumer, Consumer, Consumer, Consumer, Consumer,
           Consumer, Consumer])
        (init_state default_config_detection writable_file [])))
   \<and> snapshots (run Detection (env_one_frame 20)
        (capture_once @ [Consumer, Consumer, Consumer, Consumer, Consumer, Consumer,
           Consumer, Consumer])
        (init_state default_config_detection writable_file []))
      = [([(''min_val'', JInt 20), (''max_val'', JInt 20)], 1)]"
proof -
  have "snapshots (run Detection (env_one_frame 20)
        (capture_once @ [Consumer, Consumer, Consumer, Consumer, Consumer, Consumer,
           Consumer, Consumer])
        (init_state default_config_detection writable_file []))
      = [([(''min_val'', JInt 20), (''max_val'', JInt 20)], 1)]"
    by (simp add: eval_defs)
  with snapshot_is_one_update [OF refl, where v = Detection and e = "env_one_frame 20"
      and sched = "capture_once @ [Consumer, Consumer, Consumer, Consumer, Consumer, Consumer,
           Consumer, Consumer]"
      and ?c0.0 = default_config_detection and f = writable_file and out = "[]"]
  show ?thesis by blast
qed

text \<open>
  C5 as stated fails: a snapshot taken before the first locked block of the producer
  holds the start-up values (here \<open>rho\<close> = 1.234 from the file), which no update
  has published; the first update publishes \<open>rho\<close> = 1.23.
\<close>

theorem snapshot_before_first_update_counterexample:
  "main Follower (env_one_frame 123) (early_snapshot @ first_update) rho_fine_file
     = Threads (run Follower (env_one_frame 123) (early_snapshot @ first_update)
         (init_state rho_fine_config rho_fine_file []))
   \<and> snapshots (run Follower (env_one_frame 123) (early_snapshot @ first_update)
         (init_state rho_fine_config rho_fine_file []))
      = [([(''min_val'', JInt 0), (''max_val'', JInt 255), (''hough_threshold'', JInt 50),
           (''min_line_length'', JInt 10), (''max_line_gap'', JInt 5),
           (''rho'', JFloat (617 / 500))], 0)]
   \<and> published (run Follower (env_one_frame 123) (early_snapshot @ first_update)
         (init_state rho_fine_config rho_fine_file []))
      = [[(''min_val'', JInt 123), (''max_val'', JInt 123), (''hough_threshold'', JInt 123),
          (''min_line_length'', JInt 123), (''max_line_gap'', JInt 123),
          (''rho'', JFloat (123 / 100))]]"
  by (simp add: eval_defs)

text \<open>
  C6, as amended. In every reachable state the frames taken from the queue are an
  initial segment of the frames put into it, in the same order, and the frames put and
  not yet taken are the content of the queue: none is lost, repeated or reordered. The
  consumer's \<^verbatim>\<open>get\<close> always finds a frame. While the consumer runs it takes the frame
  at the head of the queue: from the head of its loop, with a frame queued, its next
  three steps take that frame, whatever the producer does in between. Once the consumer
  has ended it takes no frame any more, so the frames queued then are never taken. The
  producer's \<^verbatim>\<open>put\<close> completes in one step whatever the queue holds.
\<close>

theorem queue_is_fifo:
  assumes "s = run v e sched (init_state c f out)"
  shows "pushed s = popped s @ frame_queue s
     \<and> (cpc s = C_get \<longrightarrow> frame_queue s \<noteq> [])
     \<and> (cpc s = C_while \<and> running s \<and> frame_queue s \<noteq> [] \<longrightarrow>
          (\<forall>rest. count_list rest Consumer = 3 \<longrightarrow>
             popped (run v e rest s) = popped s @ [hd (frame_queue s)]))
     \<and> (terminated (cpc s) \<longrightarrow> (\<forall>rest. popped (run v e rest s) = popped s))
     \<and> (ppc s = P_put \<longrightarrow>
          ppc (step v e Producer s) = P_acquire
          \<and> frame_queue (step v e Producer s) = frame_queue s @ [p_frame s]
          \<and> pushed (step v e Producer s) = pushed s @ [p_frame s])"
proof -
  have "queue_inv s"
    using reachable_invs(1) [OF assms] by (simp add: basic_inv_def)
  then have fifo: "pushed s = popped s @ frame_queue s
     \<and> (cpc s = C_get \<longrightarrow> frame_queue s \<noteq> [])
     \<and> (ppc s = P_put \<longrightarrow>
          ppc (step v e Producer s) = P_acquire
          \<and> frame_queue (step v e Producer s) = frame_queue s @ [p_frame s]
          \<and> pushed (step v e Producer s) = pushed s @ [p_frame s])"
    by (auto simp: queue_inv_def producer_step_def)
  have takes: "popped (run v e rest s) = popped s @ [hd (frame_queue s)]"
    if "cpc s = C_while \<and> running s \<and> frame_queue s \<noteq> []"
      and "count_list rest Consumer = 3" for rest
    using that next_pop [of rest s v e] by simp
  have ended: "popped (run v e rest s) = popped s" if "terminated (cpc s)" for rest
    using that by (simp add: terminated_run)
  from fifo takes ended show ?thesis
    by blast
qed

theorem queue_is_fifo_witness:
  "popped (run Detection (env_one_frame 20) [Consumer, Producer, Consumer, Consumer]
       (run Detection (env_one_frame 20) capture_once
          (init_state default_config_detection writable_file []))) = [1]
   \<and> pushed (run Detection (env_one_frame 20) capture_once
          (init_state default_config_detection writable_file [])) = [1]"
proof -
  have st: "cpc (run Detection (env_one_frame 20) capture_once
          (init_state default_config_detection writable_file [])) = C_while
     \<and> running (run Detection (env_one_frame 20) capture_once
          (init_state default_config_detection writable_file []))
     \<and> frame_queue (run Detection (env_one_frame 20) capture_once
          (init_state default_config_detection writable_file [])) = [1]
     \<and> popped (run Detection (env_one_frame 20) capture_once
          (init_state default_config_detection writable_file [])) = []"
    by (simp add: eval_defs)
  have three: "count_list [Consumer, Producer, Consumer, Consumer] Consumer = 3"
    by simp
  from queue_is_fifo [OF refl, where v = Detection and e = "env_one_frame 20"
      and sched = capture_once and c = default_config_detection and f = writable_file
      and out = "[]"] st
  have put: "pushed (run Detection (env_one_frame 20) capture_once
          (init_state default_config_detection writable_file [])) = [1]"
    and takes: "\<forall>rest. count_list rest Consumer = 3 \<longrightarrow>
       popped (run Detection (env_one_frame 20) rest
         (run Detection (env_one_frame 20) capture_once
            (init_state default_config_detection writable_file []))) = [1]"
    by simp_all
  from takes [rule_format, OF three] put show ?thesis
    by simp
qed

text \<open>
  C6 as stated fails: the consumer does not take every frame that was put. With a
  camera that delivers two frames and a producer that has put both before the consumer
  takes the first, the operator's quit key ends the consumer after the first frame:
  \<open>main\<close> returns with two frames put, one taken and the second still in the queue.
\<close>

theorem frame_never_popped_counterexample:
  "main Detection env_two_frames (capture_once @ capture_once @ process_and_quit @ shut_down)
       writable_file
     = Threads (run Detection env_two_frames
         (capture_once @ capture_once @ process_and_quit @ shut_down)
         (init_state default_config_detection writable_file []))
   \<and> pushed (run Detection env_two_frames
         (capture_once @ capture_once @ process_and_quit @ shut_down)
         (init_state default_config_detection writable_file [])) = [1, 2]
   \<and> popped (run Detection env_two_frames
         (capture_once @ capture_once @ process_and_quit @ shut_down)
         (init_state default_config_detection writable_file [])) = [1]
   \<and> frame_queue (run Detection env_two_frames
         (capture_once @ capture_once @ process_and_quit @ shut_down)
         (init_state default_config_detection writable_file [])) = [2]
   \<and> ppc (run Detection env_two_frames
         (capture_once @ capture_once @ process_and_quit @ shut_down)
         (init_state default_config_detection writable_file [])) = P_returned
   \<and> cpc (run Detection env_two_frames
         (capture_once @ capture_once @ process_and_quit @ shut_down)
         (init_state default_config_detection writable_file [])) = C_finished"
  by (simp add: eval_defs)

text \<open>
  C8. In a reachable state where \<open>running\<close> is false the consumer has left its loop
  and takes no frame any more. The main thread puts at most one more frame (the
  iteration it is in), leaves its loop after at most one iteration of its own steps
  (the assignments of the locked block and six more), and once it has left the loop the
  queue does not change.
\<close>

theorem stop_within_one_iteration:
  assumes "s = run v e sched0 (init_state c0 f out)" and "\<not> running s"
  shows "cpc s = C_finished
     \<and> popped (run v e sched s) = popped s
     \<and> length (pushed (run v e sched s)) \<le> Suc (length (pushed s))
     \<and> (length (updates v) + 6 \<le> count_list sched Producer \<longrightarrow>
          past_loop (ppc (run v e sched s)))
     \<and> (past_loop (ppc s) \<longrightarrow>
          pushed (run v e sched s) = pushed s
          \<and> frame_queue (run v e sched s) = frame_queue s)"
proof -
  have st: "stopped v e s"
    using assms by (rule not_running_stopped)
  note r = stopped_run [OF st, of sched]
  have p: "pushes_left (ppc s) \<le> 1"
    by (cases "ppc s") simp_all
  have "length (updates v) + 6 \<le> count_list sched Producer \<Longrightarrow>
        past_loop (ppc (run v e sched s))"
  proof -
    assume "length (updates v) + 6 \<le> count_list sched Producer"
    with r steps_to_exit_bound [OF st]
    have "steps_to_exit v (ppc (run v e sched s)) = 0"
      by linarith
    then show ?thesis by (rule steps_to_exit_0)
  qed
  with st r p show ?thesis
    by (auto simp: stopped_def)
qed

theorem stop_within_one_iteration_witness:
  "\<not> running (run Detection (env_one_frame 20) (capture_once @ [Producer] @ process_and_quit)
        (init_state default_config_detection writable_file []))
   \<and> cpc (run Detection (env_one_frame 20) (capture_once @ [Producer] @ process_and_quit)
        (init_state default_config_detection writable_file [])) = C_finished
   \<and> past_loop (ppc (run Detection (env_one_frame 20) capture_once
        (run Detection (env_one_frame 20) (capture_once @ [Producer] @ process_and_quit)
          (init_state default_config_detection writable_file []))))"
proof -
  have h: "\<not> running (run Detection (env_one_frame 20) (capture_once @ [Producer] @ process_and_quit)
        (init_state default_config_detection writable_file []))"
    by (simp add: eval_defs)
  have n: "length (updates Detection) + 6 \<le> count_list capture_once Producer"
    by (simp add: capture_once_def)
  from stop_within_one_iteration [OF refl h, where sched = capture_once] h n
  show ?thesis by blast
qed

text \<open>
  C9. The consumer must never observe \<open>rho\<close> below 0.01. Every value the producer
  publishes is \<open>max(0.01, position / 100)\<close> (\<open>published_rho\<close>), but \<open>load_config\<close>
  of the follower variant accepts any \<open>rho\<close>: with \<open>rho\<close> = 0 in the file, a consumer
  that takes its snapshot before the producer's first locked block observes \<open>rho\<close> = 0.
\<close>

theorem start_up_rho_observed:
  "main Follower (env_one_frame 123) early_snapshot rho_zero_file
     = Threads (run Follower (env_one_frame 123) early_snapshot
         (init_state rho_zero_config rho_zero_file []))
   \<and> snapshots (run Follower (env_one_frame 123) early_snapshot
         (init_state rho_zero_config rho_zero_file []))
      = [([(''min_val'', JInt 0), (''max_val'', JInt 255), (''hough_threshold'', JInt 50),
           (''min_line_length'', JInt 10), (''max_line_gap'', JInt 5), (''rho'', JInt 0)], 0)]"
  by (simp add: eval_defs)

text \<open>
  C10. When the camera does not open, \<open>main\<close> prints what \<open>load_config\<close> printed and
  the error, and returns: no thread is started, \<open>save_config\<close> is not called and the
  file is as it was.
\<close>

theorem camera_failure_returns_early:
  assumes "\<not> camera_opened e"
  shows "main v e sched f = Camera_failed (snd (load_config v f) @ [camera_message v]) f
     \<and> printed (main v e sched f) = snd (load_config v f) @ [camera_message v]
     \<and> \<not> thread_started (main v e sched f)
     \<and> saves (main v e sched f) = 0
     \<and> file_after (main v e sched f) = f"
  using assms by (simp add: main_def split: prod.splits)

theorem camera_failure_returns_early_witness:
  "\<not> camera_opened env_no_camera
   \<and> main Follower env_no_camera [Producer, Consumer] rho_zero_file
       = Camera_failed [''Error: Cameracould not be opened.''] rho_zero_file"
proof -
  have h: "\<not> camera_opened env_no_camera"
    by (simp add: env_no_camera_def)
  have "snd (load_config Follower rho_zero_file) = []"
    by (simp add: eval_defs)
  with camera_failure_returns_early [OF h, of Follower "[Producer, Consumer]" rho_zero_file] h
  show ?thesis by simp
qed

end
